theory Spec2Isabelle
  imports
    Complex_Main
    "HOL-Library.List_Lexorder"
    "HOL-Library.Product_Lexorder"
    "HOL-Library.Multiset"
    "HOL-Library.Log_Nat"
begin


section \<open>Strings\<close>

text \<open>
  The program is read under Python 3, where a \<open>str\<close> is a sequence of Unicode code points:
  a string is the list of its code points (the integers that \<open>ord\<close> returns), and the
  lexicographic order of \<open>List_Lexorder\<close> on such lists is Python's comparison of \<open>str\<close>.
  \<open>ustr\<close> gives the code points of a literal.
\<close>

type_synonym str = "int list"

definition ustr :: "string \<Rightarrow> str" where
  "ustr s = map of_char s"

text \<open>
  \<open>str.isspace\<close> of one code point: the characters that \<open>rstrip()\<close> without argument
  strips and that \<open>\s\<close> matches in a pattern over \<open>str\<close> (tab to carriage return, the
  separators U+001C to U+001F, space, U+0085, U+00A0, U+1680, U+2000 to U+200A, U+2028,
  U+2029, U+202F, U+205F, U+3000).
\<close>

definition is_space :: "int \<Rightarrow> bool" where
  "is_space c =
     ((0x09 \<le> c \<and> c \<le> 0x0D) \<or> (0x1C \<le> c \<and> c \<le> 0x20) \<or> c = 0x85 \<or> c = 0xA0
      \<or> c = 0x1680 \<or> (0x2000 \<le> c \<and> c \<le> 0x200A) \<or> c = 0x2028 \<or> c = 0x2029
      \<or> c = 0x202F \<or> c = 0x205F \<or> c = 0x3000)"

definition rstrip :: "str \<Rightarrow> str" where
  "rstrip s = rev (dropWhile is_space (rev s))"

text \<open>\<open>s.split(sep)\<close> for a one-character separator: \<open>"".split(".") == [""]\<close>.\<close>

fun split_on :: "int \<Rightarrow> str \<Rightarrow> str list" where
  "split_on sep [] = [[]]"
| "split_on sep (c # cs) =
     (if c = sep then [] # split_on sep cs
      else (case split_on sep cs of
              [] \<Rightarrow> [[c]]
            | w # ws \<Rightarrow> (c # w) # ws))"

text \<open>\<open>sep.join(xs)\<close>.\<close>

fun join :: "str \<Rightarrow> str list \<Rightarrow> str" where
  "join sep [] = []"
| "join sep [x] = x"
| "join sep (x # y # ys) = x @ sep @ join sep (y # ys)"

definition startswith :: "str \<Rightarrow> str \<Rightarrow> bool" where
  "startswith s p = (take (length p) s = p)"

text \<open>Truth value of an optional string: \<open>None\<close> and \<open>""\<close> are false.\<close>

fun truthy :: "str option \<Rightarrow> bool" where
  "truthy None = False"
| "truthy (Some s) = (s \<noteq> [])"

text \<open>
  \<open>xs[lineno - 1]\<close> for a line number \<open>lineno \<ge> 0\<close>: Python reads index \<open>-1\<close> (line
  number 0) as the last element and raises IndexError beyond the end.
\<close>

definition line_at :: "'a list \<Rightarrow> nat \<Rightarrow> 'a option" where
  "line_at xs lineno =
     (if lineno = 0 then (if xs = [] then None else Some (last xs))
      else if lineno \<le> length xs then Some (xs ! (lineno - 1))
      else None)"

text \<open>\<open>xs[lineno - 1] = v\<close>, for a line number that \<open>line_at\<close> accepts.\<close>

definition set_line :: "'a list \<Rightarrow> nat \<Rightarrow> 'a \<Rightarrow> 'a list" where
  "set_line xs lineno v =
     (if lineno = 0 then xs[length xs - 1 := v] else xs[lineno - 1 := v])"

section \<open>Import nodes\<close>

datatype error =
    SyntaxError | IndexError | KeyError | AssertionError | ModuleResolutionError
  | TypeError | OverflowError | ConfigConflict | IOError

datatype node_kind = Import | ImportFrom

record py_alias =
  name :: str
  asname :: "str option"

text \<open>
  An \<open>ast.Import\<close> or \<open>ast.ImportFrom\<close> node with the attributes the program reads and
  the two it adds (\<open>noqa\<close>, \<open>nosort\<close>). \<open>module\<close> and \<open>level\<close> exist on \<open>ImportFrom\<close> only.
\<close>

record import_node =
  kind :: node_kind
  module :: "str option"
  level :: nat
  names :: "py_alias list"
  lineno :: nat
  noqa :: bool
  nosort :: bool

text \<open>The counters of the \<open>stats\<close> dictionary that the stages update.\<close>

record stats =
  names_from_star :: int
  star_imports_removed :: int
  removed_imports :: int

section \<open>\<open>_dedupe_single_imports\<close>\<close>

datatype hash_key =
    ImportKey str "str option"
  | FromKey "str option" nat str "str option"

definition hash_key_of :: "import_node \<Rightarrow> error + hash_key" where
  "hash_key_of n =
     (case names n of
        [a] \<Rightarrow>
          (case kind n of
             Import \<Rightarrow> Inr (ImportKey (name a) (asname a))
           | ImportFrom \<Rightarrow> Inr (FromKey (module n) (level n) (name a) (asname a)))
      | _ \<Rightarrow> Inl AssertionError)"

text \<open>
  Nodes are compared by identity (\<open>seen[hash_key] is import_node\<close>); the model gives every
  node its position in the input as identity. The first loop fills \<open>seen\<close> and
  \<open>orig_order\<close>, the second yields the nodes that \<open>seen\<close> holds.
\<close>

type_synonym seen_map = "hash_key \<Rightarrow> (nat \<times> import_node) option"

fun dedupe_scan ::
  "(nat \<times> import_node) list \<Rightarrow> seen_map \<Rightarrow> (nat \<times> import_node \<times> hash_key) list \<Rightarrow>
   error + (seen_map \<times> (nat \<times> import_node \<times> hash_key) list)" where
  "dedupe_scan [] seen orig_order = Inr (seen, orig_order)"
| "dedupe_scan ((i, n) # rest) seen orig_order =
     (case hash_key_of n of
        Inl e \<Rightarrow> Inl e
      | Inr k \<Rightarrow>
          dedupe_scan rest
            (case seen k of
               Some (j, m) \<Rightarrow> if noqa n \<and> \<not> noqa m then seen(k \<mapsto> (i, n)) else seen
             | None \<Rightarrow> seen(k \<mapsto> (i, n)))
            (orig_order @ [(i, n, k)]))"

fun dedupe_emit ::
  "(nat \<times> import_node \<times> hash_key) list \<Rightarrow> seen_map \<Rightarrow> stats \<Rightarrow>
   error + (import_node list \<times> stats)" where
  "dedupe_emit [] seen st = Inr ([], st)"
| "dedupe_emit ((i, n, k) # rest) seen st =
     (case seen k of
        None \<Rightarrow> Inl KeyError
      | Some (j, m) \<Rightarrow>
          if j = i then
            (case dedupe_emit rest seen st of
               Inl e \<Rightarrow> Inl e
             | Inr (out, st') \<Rightarrow> Inr (n # out, st'))
          else dedupe_emit rest seen (st\<lparr>removed_imports := removed_imports st + 1\<rparr>))"

definition dedupe_single_imports ::
  "import_node list \<Rightarrow> stats \<Rightarrow> error + (import_node list \<times> stats)" where
  "dedupe_single_imports import_nodes st =
     (case dedupe_scan (zip [0..<length import_nodes] import_nodes) Map.empty [] of
        Inl e \<Rightarrow> Inl e
      | Inr (seen, orig_order) \<Rightarrow> dedupe_emit orig_order seen st)"

section \<open>\<open>_remove_unused_names\<close>\<close>

text \<open>\<open>"%s as %s" % (name.name, name.asname) if name.asname else name.name\<close>\<close>

definition alias_text :: "py_alias \<Rightarrow> str" where
  "alias_text a =
     (case asname a of
        None \<Rightarrow> name a
      | Some s \<Rightarrow> if s \<noteq> [] then name a @ (ustr '' as '') @ s else name a)"

definition warning_key :: "import_node \<Rightarrow> str" where
  "warning_key n =
     replicate (level n) 0x2E
     @ (case module n of
          None \<Rightarrow> []
        | Some m \<Rightarrow> if m \<noteq> [] then m @ (ustr ''.'') else [])
     @ join (ustr ''.'') (map alias_text (names n))"

text \<open>
  The loop body for one node, given \<open>remove_imports\<close>: the node with its names pruned, and
  what the node adds to \<open>removed_import_count\<close>.
\<close>

definition prune_names :: "(str \<times> nat) set \<Rightarrow> import_node \<Rightarrow> import_node" where
  "prune_names remove_imports n =
     (case kind n of
        ImportFrom \<Rightarrow>
          if (warning_key n, lineno n) \<in> remove_imports then n\<lparr>names := []\<rparr> else n
      | Import \<Rightarrow>
          n\<lparr>names := filter (\<lambda>a. (name a, lineno n) \<notin> remove_imports) (names n)\<rparr>)"

definition pruned_count :: "(str \<times> nat) set \<Rightarrow> import_node \<Rightarrow> int" where
  "pruned_count remove_imports n =
     (case kind n of
        ImportFrom \<Rightarrow> if (warning_key n, lineno n) \<in> remove_imports then 1 else 0
      | Import \<Rightarrow>
          int (length (names n))
          - int (length (filter (\<lambda>a. (name a, lineno n) \<notin> remove_imports) (names n))))"

definition remove_unused_names ::
  "import_node list \<Rightarrow> (str \<times> nat) set \<Rightarrow> stats \<Rightarrow> import_node list \<times> stats" where
  "remove_unused_names imports warnings st =
     (let noqa_lines = lineno ` set (filter noqa imports);
          remove_imports = {(nm, l) \<in> warnings. l \<notin> noqa_lines};
          removed_import_count = sum_list (map (pruned_count remove_imports) imports);
          new_imports = filter (\<lambda>n. names n \<noteq> []) (map (prune_names remove_imports) imports)
      in (new_imports,
          st\<lparr>removed_imports := removed_imports st
               + (removed_import_count - names_from_star st + star_imports_removed st)\<rparr>))"

section \<open>\<open>_write_singlename_import\<close> and \<open>_write_source\<close>\<close>

definition directive_text :: "import_node \<Rightarrow> str" where
  "directive_text n =
     (if noqa n then (ustr ''  # noqa'') else []) @ (if nosort n then (ustr '' nosort'') else [])"

definition write_singlename_import :: "import_node \<Rightarrow> error + str" where
  "write_singlename_import n =
     (case names n of
        [] \<Rightarrow> Inl IndexError
      | a # _ \<Rightarrow>
          (case kind n of
             Import \<Rightarrow> Inr ((ustr ''import '') @ alias_text a @ directive_text n)
           | ImportFrom \<Rightarrow>
               Inr ((ustr ''from '') @ replicate (level n) 0x2E
                    @ (case module n of None \<Rightarrow> [] | Some m \<Rightarrow> m)
                    @ (ustr '' import '') @ alias_text a @ directive_text n)))"

fun write_imports :: "import_node list \<Rightarrow> error + str list" where
  "write_imports [] = Inr []"
| "write_imports (n # ns) =
     (case write_singlename_import n of
        Inl e \<Rightarrow> Inl e
      | Inr l \<Rightarrow> (case write_imports ns of Inl e \<Rightarrow> Inl e | Inr ls \<Rightarrow> Inr (l # ls)))"

text \<open>The loop over \<open>grouped_imports\<close> at the line \<open>imports_start_on\<close>.\<close>

fun write_groups ::
  "import_node list list \<Rightarrow> str list \<Rightarrow> bool \<Rightarrow> error + (str list \<times> bool)" where
  "write_groups [] buf has_imports = Inr (buf, has_imports)"
| "write_groups (imports # groups) buf has_imports =
     (case write_imports imports of
        Inl e \<Rightarrow> Inl e
      | Inr ls \<Rightarrow>
          if imports \<noteq> [] then write_groups groups (buf @ ls @ [[]]) True
          else write_groups groups (buf @ ls) has_imports)"

fun write_lines ::
  "(nat \<times> str) list \<Rightarrow> import_node list list \<Rightarrow> nat set \<Rightarrow> nat \<Rightarrow> str list \<Rightarrow> bool \<Rightarrow>
   error + str list" where
  "write_lines [] grouped_imports import_gap_lines imports_start_on buf has_imports = Inr buf"
| "write_lines ((lnum, line) # rest) grouped_imports import_gap_lines imports_start_on buf
     has_imports =
     (case (if lnum = imports_start_on then
              (case write_groups grouped_imports buf has_imports of
                 Inl e \<Rightarrow> Inl e
               | Inr (buf', has') \<Rightarrow> Inr (if has' then butlast buf' else buf', has'))
            else Inr (buf, has_imports)) of
        Inl e \<Rightarrow> Inl e
      | Inr (buf1, has1) \<Rightarrow>
          write_lines rest grouped_imports import_gap_lines imports_start_on
            (if lnum \<notin> import_gap_lines then buf1 @ [rstrip line] else buf1) has1)"

definition write_source ::
  "str list \<Rightarrow> import_node list list \<Rightarrow> nat set \<Rightarrow> nat \<Rightarrow> error + str list" where
  "write_source source_lines grouped_imports import_gap_lines imports_start_on =
     write_lines (zip [1..<Suc (length source_lines)] source_lines) grouped_imports
       import_gap_lines imports_start_on [] False"

section \<open>\<open>_get_import_discard_lines\<close>\<close>

definition is_whitespace_or_comment :: "str \<Rightarrow> bool" where
  "is_whitespace_or_comment line =
     (let r = dropWhile is_space line
      in r = [] \<or> startswith r (ustr ''#'')
         \<or> startswith r [0x27, 0x27, 0x27]
         \<or> startswith r [0x22, 0x22, 0x22])"

text \<open>The inner loop over \<open>range(prev + 1, lineno)\<close>, with its \<open>break\<close> at a line of code.\<close>

fun gap_scan :: "str list \<Rightarrow> nat set \<Rightarrow> nat list \<Rightarrow> nat set \<Rightarrow> error + nat set" where
  "gap_scan source_lines lines_with_code [] import_gap_lines = Inr import_gap_lines"
| "gap_scan source_lines lines_with_code (gap # gaps) import_gap_lines =
     (if gap \<in> lines_with_code then Inr import_gap_lines
      else (case line_at source_lines gap of
              None \<Rightarrow> Inl IndexError
            | Some line \<Rightarrow>
                gap_scan source_lines lines_with_code gaps
                  (if \<not> is_whitespace_or_comment line then insert gap import_gap_lines
                   else import_gap_lines)))"

fun gap_loop ::
  "str list \<Rightarrow> nat set \<Rightarrow> nat option \<Rightarrow> nat list \<Rightarrow> nat set \<Rightarrow> error + nat set" where
  "gap_loop source_lines lines_with_code prev [] import_gap_lines = Inr import_gap_lines"
| "gap_loop source_lines lines_with_code prev (lnum # lnums) import_gap_lines =
     (case (case prev of
              None \<Rightarrow> Inr import_gap_lines
            | Some p \<Rightarrow> gap_scan source_lines lines_with_code [Suc p..<lnum] import_gap_lines) of
        Inl e \<Rightarrow> Inl e
      | Inr gaps \<Rightarrow> gap_loop source_lines lines_with_code (Some lnum) lnums gaps)"

text \<open>The inner loop of the second sweep: \<open>intermediary_whitespace_lines\<close> after the run.\<close>

fun whitespace_run :: "str list \<Rightarrow> nat list \<Rightarrow> nat list \<Rightarrow> error + nat list" where
  "whitespace_run source_lines [] intermediary = Inr intermediary"
| "whitespace_run source_lines (lnum # lnums) intermediary =
     (case line_at source_lines lnum of
        None \<Rightarrow> Inl IndexError
      | Some line \<Rightarrow>
          whitespace_run source_lines lnums
            (if rstrip line = [] then intermediary @ [lnum] else []))"

fun whitespace_sweep ::
  "str list \<Rightarrow> (nat \<times> nat) list \<Rightarrow> nat set \<Rightarrow> error + nat set" where
  "whitespace_sweep source_lines [] import_gap_lines = Inr import_gap_lines"
| "whitespace_sweep source_lines ((gap_line, next_line) # pairs) import_gap_lines =
     (case whitespace_run source_lines [Suc gap_line..<next_line] [] of
        Inl e \<Rightarrow> Inl e
      | Inr intermediary \<Rightarrow>
          whitespace_sweep source_lines pairs
            (if intermediary \<noteq> [] then import_gap_lines \<union> set intermediary
             else import_gap_lines))"

definition get_import_discard_lines ::
  "str list \<Rightarrow> import_node list \<Rightarrow> nat set \<Rightarrow> error + nat set" where
  "get_import_discard_lines source_lines imports lines_with_code =
     (case gap_loop source_lines lines_with_code None
             (map lineno imports @ [length source_lines + 1]) (set (map lineno imports)) of
        Inl e \<Rightarrow> Inl e
      | Inr import_gap_lines \<Rightarrow>
          (let sorted_gap_lines = sorted_list_of_set import_gap_lines
           in whitespace_sweep source_lines
                (zip (butlast sorted_gap_lines) (tl sorted_gap_lines)) import_gap_lines))"

section \<open>The parser and the checker\<close>

record message =
  is_unused_import :: bool
  message_arg0 :: str
  msg_lineno :: nat

text \<open>
  What the program takes from outside its own file. \<open>ast_parse\<close> is \<open>ast.parse\<close> (\<open>None\<close>
  for a syntax error) on trees of type \<open>'t\<close>; \<open>node_linenos\<close> lists \<open>node.lineno\<close> over
  \<open>ast.walk(tree)\<close>; \<open>toplevel_imports\<close> are the import nodes whose parent is the module, in
  the order of \<open>ast.walk\<close>; \<open>checker_messages\<close> are the messages of
  \<open>pyflakes.checker.Checker\<close>; \<open>import_module_names\<close> is
  \<open>getattr(module, "__all__", dir(module))\<close> of \<open>importlib.import_module\<close> (\<open>None\<close> when the
  import raises); \<open>STDLIB\<close> is \<open>flake8_import_order.STDLIB_NAMES\<close>; \<open>set_iteration\<close> is the
  order in which the interpreter iterates over a set of nodes whose members were inserted
  in the given order (nodes hash by identity, so this order varies from run to run);
  \<open>str_lower\<close> is \<open>str.lower\<close>, the lower-case mapping of the interpreter's Unicode tables.
\<close>

record 't pylib =
  ast_parse :: "str \<Rightarrow> 't option"
  node_linenos :: "'t \<Rightarrow> nat list"
  toplevel_imports :: "'t \<Rightarrow> import_node list"
  checker_messages :: "'t \<Rightarrow> message list"
  import_module_names :: "str option \<Rightarrow> str list option"
  STDLIB :: "str set"
  set_iteration :: "import_node list \<Rightarrow> import_node list"
  str_lower :: "str \<Rightarrow> str"

section \<open>\<open>_drill_for_warnings\<close>\<close>

type_synonym drill_state = "str list \<times> (str \<times> nat) set \<times> nat set \<times> bool"

fun drill_pass :: "message list \<Rightarrow> drill_state \<Rightarrow> error + drill_state" where
  "drill_pass [] s = Inr s"
| "drill_pass (w # ws) (source_lines, warnings_set, seen_lineno, has_warnings) =
     (if \<not> is_unused_import w \<or> msg_lineno w \<in> seen_lineno then
        drill_pass ws (source_lines, warnings_set, seen_lineno, has_warnings)
      else
        (case line_at source_lines (msg_lineno w) of
           None \<Rightarrow> Inl IndexError
         | Some line \<Rightarrow>
             if takeWhile is_space line \<noteq> [] then
               drill_pass ws (source_lines, warnings_set, seen_lineno, has_warnings)
             else
               drill_pass ws
                 (set_line source_lines (msg_lineno w) [],
                  insert (message_arg0 w, msg_lineno w) warnings_set,
                  insert (msg_lineno w) seen_lineno,
                  True)))"

lemma line_at_Some_le: "line_at xs l = Some x \<Longrightarrow> l \<le> length xs"
  by (auto simp: line_at_def split: if_splits)

lemma length_set_line [simp]: "length (set_line xs l v) = length xs"
  by (simp add: set_line_def)

lemma drill_pass_progress:
  "drill_pass ws (src, wset, seen, has) = Inr (src', wset', seen', has') \<Longrightarrow>
     length src' = length src \<and> seen \<subseteq> seen' \<and> seen' \<subseteq> seen \<union> {0..length src}
     \<and> (has' \<longrightarrow> has \<or> seen \<noteq> seen')"
proof (induction ws arbitrary: src wset seen has)
  case Nil
  then show ?case by simp
next
  case (Cons w ws)
  show ?case
  proof (cases "\<not> is_unused_import w \<or> msg_lineno w \<in> seen")
    case True
    with Cons.prems have "drill_pass ws (src, wset, seen, has) = Inr (src', wset', seen', has')"
      by auto
    from Cons.IH[OF this] show ?thesis .
  next
    case False
    then obtain line where line: "line_at src (msg_lineno w) = Some line"
      using Cons.prems by (auto split: option.splits)
    show ?thesis
    proof (cases "takeWhile is_space line \<noteq> []")
      case True
      with False line Cons.prems
      have "drill_pass ws (src, wset, seen, has) = Inr (src', wset', seen', has')"
        by auto
      from Cons.IH[OF this] show ?thesis .
    next
      case noind: False
      with False line Cons.prems
      have "drill_pass ws (set_line src (msg_lineno w) [],
               insert (message_arg0 w, msg_lineno w) wset, insert (msg_lineno w) seen, True)
            = Inr (src', wset', seen', has')"
        by auto
      from Cons.IH[OF this] line_at_Some_le[OF line] False show ?thesis
        by auto
    qed
  qed
qed

function drill_loop ::
  "'t pylib \<Rightarrow> message list \<Rightarrow> str list \<Rightarrow> (str \<times> nat) set \<Rightarrow> nat set \<Rightarrow>
   error + (str \<times> nat) set" where
  "drill_loop env messages source_lines warnings_set seen_lineno =
     (case drill_pass messages (source_lines, warnings_set, seen_lineno, False) of
        Inl e \<Rightarrow> Inl e
      | Inr (source_lines', warnings_set', seen_lineno', has_warnings) \<Rightarrow>
          if \<not> has_warnings then Inr warnings_set'
          else
            (case ast_parse env (join [0x0A] source_lines') of
               None \<Rightarrow> Inl SyntaxError
             | Some tree \<Rightarrow>
                 drill_loop env (checker_messages env tree) source_lines' warnings_set'
                   seen_lineno'))"
  by pat_completeness auto
termination
proof (relation "measure (\<lambda>(env, messages, source_lines, warnings_set, seen_lineno).
          card ({0..length source_lines} - seen_lineno))")
  show "wf (measure (\<lambda>(env :: 't pylib, messages :: message list, source_lines :: str list,
          warnings_set :: (str \<times> nat) set, seen_lineno :: nat set).
          card ({0..length source_lines} - seen_lineno)))"
    by simp
next
  fix env :: "'t pylib" and messages source_lines warnings_set seen_lineno x2 x1 x2a x1a x2b x1b
    and x2c :: bool and x2d
  assume pass: "drill_pass messages (source_lines, warnings_set, seen_lineno, False) = Inr x2"
    and x2: "(x1, x2a) = x2" "(x1a, x2b) = x2a" "(x1b, x2c) = x2b"
    and has: "\<not> \<not> x2c"
  from pass x2 have "drill_pass messages (source_lines, warnings_set, seen_lineno, False)
      = Inr (x1, x1a, x1b, x2c)" by simp
  from drill_pass_progress[OF this] has
  have len: "length x1 = length source_lines" and sub: "seen_lineno \<subseteq> x1b"
    and bnd: "x1b \<subseteq> seen_lineno \<union> {0..length source_lines}" and ne: "seen_lineno \<noteq> x1b"
    by auto
  have "{0..length source_lines} - x1b \<subset> {0..length source_lines} - seen_lineno"
    using sub bnd ne by auto
  then have "card ({0..length source_lines} - x1b) < card ({0..length source_lines} - seen_lineno)"
    by (intro psubset_card_mono) auto
  then show "((env, checker_messages env x2d, x1, x1a, x1b),
        (env, messages, source_lines, warnings_set, seen_lineno))
       \<in> measure (\<lambda>(env, messages, source_lines, warnings_set, seen_lineno).
          card ({0..length source_lines} - seen_lineno))"
    by (simp add: len)
qed

definition drill_for_warnings ::
  "'t pylib \<Rightarrow> str list \<Rightarrow> message list \<Rightarrow> error + (str \<times> nat) set" where
  "drill_for_warnings env source_lines messages = drill_loop env messages source_lines {} {}"

section \<open>\<open>_parse_toplevel_imports\<close>\<close>

text \<open>
  \<open>re.match(r".* # noqa( nosort)?", line)\<close>: \<open>None\<close> when there is no match, otherwise
  whether group 1 matched. The greedy \<open>.*\<close> (which does not cross a newline) is tried
  from its longest extent down, so the last \<open># noqa\<close> of the line decides.
\<close>

fun noqa_match :: "str \<Rightarrow> bool option" where
  "noqa_match [] = None"
| "noqa_match (c # cs) =
     (case (if c = 0x0A then None else noqa_match cs) of
        Some g \<Rightarrow> Some g
      | None \<Rightarrow>
          if startswith (c # cs) (ustr '' # noqa'')
          then Some (startswith (drop 7 (c # cs)) (ustr '' nosort''))
          else None)"

fun annotate :: "str list \<Rightarrow> import_node list \<Rightarrow> error + import_node list" where
  "annotate source_lines [] = Inr []"
| "annotate source_lines (n # ns) =
     (case line_at source_lines (lineno n) of
        None \<Rightarrow> Inl IndexError
      | Some l \<Rightarrow>
          (case annotate source_lines ns of
             Inl e \<Rightarrow> Inl e
           | Inr ns' \<Rightarrow>
               Inr ((case noqa_match (rstrip l) of
                       None \<Rightarrow> n\<lparr>noqa := False, nosort := False\<rparr>
                     | Some g \<Rightarrow> n\<lparr>noqa := True, nosort := g\<rparr>) # ns')))"

definition parse_toplevel_imports ::
  "'t pylib \<Rightarrow> str list \<Rightarrow> bool \<Rightarrow>
   error + (import_node list \<times> (str \<times> nat) set option \<times> nat set)" where
  "parse_toplevel_imports env source_lines drill =
     (case ast_parse env (join [0x0A] source_lines) of
        None \<Rightarrow> Inl SyntaxError
      | Some tree \<Rightarrow>
          (case (if drill then
                   (case drill_for_warnings env source_lines (checker_messages env tree) of
                      Inl e \<Rightarrow> Inl e
                    | Inr ws \<Rightarrow> Inr (Some ws))
                 else Inr None) of
             Inl e \<Rightarrow> Inl e
           | Inr warnings_set \<Rightarrow>
               (case annotate source_lines (toplevel_imports env tree) of
                  Inl e \<Rightarrow> Inl e
                | Inr imports \<Rightarrow> Inr (imports, warnings_set, set (node_linenos env tree)))))"

section \<open>\<open>_as_single_imports\<close>\<close>

fun star_nodes :: "import_node \<Rightarrow> str list \<Rightarrow> import_node list" where
  "star_nodes n [] = []"
| "star_nodes n (s # ss) = n\<lparr>names := [\<lparr>name = s, asname = None\<rparr>]\<rparr> # star_nodes n ss"

fun single_names ::
  "'t pylib \<Rightarrow> bool \<Rightarrow> import_node \<Rightarrow> py_alias list \<Rightarrow> stats \<Rightarrow>
   error + (import_node list \<times> stats)" where
  "single_names env expand_stars n [] st = Inr ([], st)"
| "single_names env expand_stars n (a # as) st =
     (if kind n = ImportFrom \<and> name a = (ustr ''*'') \<and> expand_stars then
        (case import_module_names env (module n) of
           None \<Rightarrow> Inl ModuleResolutionError
         | Some exported \<Rightarrow>
             (case single_names env expand_stars n as
                     (st\<lparr>star_imports_removed := star_imports_removed st + 1,
                        names_from_star := names_from_star st + int (length exported)\<rparr>) of
                Inl e \<Rightarrow> Inl e
              | Inr (out, st') \<Rightarrow> Inr (star_nodes n exported @ out, st')))
      else
        (case single_names env expand_stars n as st of
           Inl e \<Rightarrow> Inl e
         | Inr (out, st') \<Rightarrow> Inr (n\<lparr>names := [a]\<rparr> # out, st')))"

fun as_single_imports ::
  "'t pylib \<Rightarrow> import_node list \<Rightarrow> stats \<Rightarrow> bool \<Rightarrow> error + (import_node list \<times> stats)" where
  "as_single_imports env [] st expand_stars = Inr ([], st)"
| "as_single_imports env (n # ns) st expand_stars =
     (case single_names env expand_stars n (names n) st of
        Inl e \<Rightarrow> Inl e
      | Inr (out, st') \<Rightarrow>
          (case as_single_imports env ns st' expand_stars of
             Inl e \<Rightarrow> Inl e
           | Inr (out', st'') \<Rightarrow> Inr (out @ out', st'')))"

section \<open>\<open>_get_import_groups\<close>\<close>

text \<open>\<open>LAST = chr(127)\<close>\<close>

definition LAST :: int where
  "LAST = 0x7F"

text \<open>\<open>(token.lower(), token)\<close>, for the \<open>str.lower\<close> of the interpreter.\<close>

definition token_pair :: "(str \<Rightarrow> str) \<Rightarrow> str \<Rightarrow> str \<times> str" where
  "token_pair lower token = (lower token, token)"

text \<open>
  \<open>import_node._sort_key\<close>, which the loop sets for every node from the node's single name.
\<close>

definition node_sort_key :: "(str \<Rightarrow> str) \<Rightarrow> import_node \<Rightarrow> (str \<times> str) list" where
  "node_sort_key lower n =
     (case names n of
        [] \<Rightarrow> []
      | a # _ \<Rightarrow>
          (case kind n of
             ImportFrom \<Rightarrow>
               (let relative_prefix = replicate (level n) LAST;
                    mod_tokens = (case module n of
                                    None \<Rightarrow> [[]]
                                  | Some m \<Rightarrow> if m \<noteq> [] then split_on 0x2E m else [[]]);
                    mod_tokens' = (case mod_tokens of
                                     [] \<Rightarrow> [relative_prefix]
                                   | t # ts \<Rightarrow> (relative_prefix @ t) # ts)
                in map (token_pair lower) mod_tokens' @ [([], []), (lower (name a), name a)])
           | Import \<Rightarrow> map (token_pair lower) (split_on 0x2E (name a))))"

definition is_future :: "str \<Rightarrow> bool" where
  "is_future m = (m = (ustr ''__future__''))"

definition is_std_lib :: "str set \<Rightarrow> str \<Rightarrow> bool" where
  "is_std_lib stdlib m = (case split_on 0x2E m of [] \<Rightarrow> False | token # _ \<Rightarrow> token \<in> stdlib)"

definition is_local :: "str \<Rightarrow> str \<Rightarrow> bool" where
  "is_local local_modules m =
     list_ex (\<lambda>md. md \<noteq> [] \<and> startswith m md) (split_on 0x2C local_modules)"

datatype import_group = Future | Stdlib | Package | Locals | Nosort

definition classify :: "str set \<Rightarrow> str \<Rightarrow> import_node \<Rightarrow> str \<Rightarrow> import_group" where
  "classify stdlib local_modules n nm =
     (case kind n of
        ImportFrom \<Rightarrow>
          if nosort n then Nosort
          else if level n > 0 then Locals
          else (case module n of
                  None \<Rightarrow> Locals
                | Some m \<Rightarrow>
                    if m = [] \<or> is_local local_modules m then Locals
                    else if is_future m then Future
                    else if is_std_lib stdlib m then Stdlib
                    else Package)
      | Import \<Rightarrow>
          if nosort n then Nosort
          else if is_local local_modules nm then Locals
          else if is_std_lib stdlib nm then Stdlib
          else Package)"

text \<open>
  The loop of \<open>_get_import_groups\<close>. The four sets hold nodes, which hash by identity: the
  model keeps each as the list of its members in insertion order, and \<open>set_iteration\<close> of
  the library gives the order in which \<open>sorted\<close> reads the set.
\<close>

type_synonym groups =
  "import_node list \<times> import_node list \<times> import_node list \<times> import_node list \<times> import_node list"

fun group_loop :: "str set \<Rightarrow> str \<Rightarrow> import_node list \<Rightarrow> groups \<Rightarrow> error + groups" where
  "group_loop stdlib_names local_modules [] g = Inr g"
| "group_loop stdlib_names local_modules (n # ns) (future, stdlib, package, nosort_list, locals) =
     (case names n of
        [a] \<Rightarrow>
          group_loop stdlib_names local_modules ns
            (case classify stdlib_names local_modules n (name a) of
               Future \<Rightarrow> (future @ [n], stdlib, package, nosort_list, locals)
             | Stdlib \<Rightarrow> (future, stdlib @ [n], package, nosort_list, locals)
             | Package \<Rightarrow> (future, stdlib, package @ [n], nosort_list, locals)
             | Nosort \<Rightarrow> (future, stdlib, package, nosort_list @ [n], locals)
             | Locals \<Rightarrow> (future, stdlib, package, nosort_list, locals @ [n]))
      | _ \<Rightarrow> Inl AssertionError)"

definition sorted_group :: "'t pylib \<Rightarrow> import_node list \<Rightarrow> import_node list" where
  "sorted_group env members =
     sort_key (node_sort_key (str_lower env)) (set_iteration env members)"

definition get_import_groups ::
  "'t pylib \<Rightarrow> import_node list \<Rightarrow> str \<Rightarrow> error + groups" where
  "get_import_groups env imports local_modules =
     (case group_loop (STDLIB env) local_modules imports ([], [], [], [], []) of
        Inl e \<Rightarrow> Inl e
      | Inr (future, stdlib, package, nosort_list, locals) \<Rightarrow>
          Inr (sorted_group env future, sorted_group env stdlib, sorted_group env package,
               nosort_list, sorted_group env locals))"

section \<open>\<open>_rewrite_source\<close>\<close>

subsection \<open>Floating-point numbers\<close>

text \<open>
  A Python \<open>float\<close> is an IEEE 754 double: 53 significant bits, the exponents of the normal
  numbers from \<open>-1022\<close> to 1023, below \<open>2^-1022\<close> the spacing \<open>2^-1074\<close>, every operation
  rounded to the nearest double with ties to the even significand, and a rounded result
  of magnitude \<open>2^1024\<close> or more (of exponent 1024 or more) replaced by an infinity. A
  finite double is given by its value, a rational number.
\<close>

definition pow2 :: "int \<Rightarrow> rat" where
  "pow2 e = (if 0 \<le> e then 2 ^ nat e else 1 / 2 ^ nat (- e))"

text \<open>The exponent \<open>e\<close> of a rational \<open>q \<noteq> 0\<close>: \<open>2^e \<le> |q| < 2^(e+1)\<close>.\<close>

definition exponent :: "rat \<Rightarrow> int" where
  "exponent q =
     (case quotient_of \<bar>q\<bar> of
        (a, b) \<Rightarrow>
          (let e0 = bitlen a - bitlen b
           in if pow2 e0 \<le> \<bar>q\<bar> then e0 else e0 - 1))"

definition round_half_even :: "rat \<Rightarrow> int" where
  "round_half_even x =
     (let f = \<lfloor>x\<rfloor>; r = x - of_int f
      in if r < 1 / 2 then f else if 1 / 2 < r then f + 1 else if even f then f else f + 1)"

definition round_double :: "rat \<Rightarrow> rat" where
  "round_double q =
     (if q = 0 then 0
      else (let ulp = pow2 (max (exponent q) (- 1022) - 52)
            in of_int (round_half_even (q / ulp)) * ulp))"

text \<open>
  \<open>import_proportion\<close> is the integer 0 or a float; a float is finite or an infinity
  (\<open>Infinity True\<close> is the positive one).
\<close>

datatype number = IntNum int | FloatNum rat | Infinity bool

text \<open>
  The conversion of an \<open>int\<close> to \<open>float\<close>, which raises OverflowError for an integer too
  large, and the double that an arithmetic operation returns for the exact result \<open>q\<close>.
\<close>

definition overflows :: "rat \<Rightarrow> bool" where
  "overflows r = (r \<noteq> 0 \<and> 1024 \<le> exponent r)"

definition float_of_int :: "int \<Rightarrow> error + rat" where
  "float_of_int n =
     (let r = round_double (of_int n) in if overflows r then Inl OverflowError else Inr r)"

definition float_result :: "rat \<Rightarrow> number" where
  "float_result q =
     (let r = round_double q in if overflows r then Infinity (0 < q) else FloatNum r)"

text \<open>
  \<open>(len(imports) + stats["star_imports_removed"] - stats["names_from_star"])
  / float(len(lines_with_code)) * 100\<close>: the integer is converted to a float, the division
  and the multiplication by \<open>100.0\<close> are rounded one after the other.
\<close>

definition density :: "import_node list \<Rightarrow> stats \<Rightarrow> nat set \<Rightarrow> error + number" where
  "density imports st lines_with_code =
     (if lines_with_code = {} then Inr (IntNum 0)
      else
        (case float_of_int (int (card lines_with_code)) of
           Inl e \<Rightarrow> Inl e
         | Inr code_lines \<Rightarrow>
             (case float_of_int
                     (int (length imports) + star_imports_removed st - names_from_star st) of
                Inl e \<Rightarrow> Inl e
              | Inr numerator \<Rightarrow>
                  Inr (case float_result (numerator / code_lines) of
                         FloatNum ratio \<Rightarrow> float_result (ratio * 100)
                       | other \<Rightarrow> other))))"

text \<open>
  \<open>import_proportion < keep_threshhold\<close> for an integer threshold: Python compares a
  float with an \<open>int\<close> by their exact values.
\<close>

definition number_less :: "number \<Rightarrow> int \<Rightarrow> bool" where
  "number_less p t =
     (case p of
        IntNum i \<Rightarrow> i < t
      | FloatNum x \<Rightarrow> x < of_int t
      | Infinity positive \<Rightarrow> \<not> positive)"

definition runs_remover :: "int option \<Rightarrow> number \<Rightarrow> bool" where
  "runs_remover keep_threshhold proportion =
     (case keep_threshhold of None \<Rightarrow> True | Some t \<Rightarrow> number_less proportion t)"

subsection \<open>The stages\<close>

record file_stats =
  counters :: stats
  import_proportion :: number
  import_line_delta :: int
  is_changed :: bool

definition stats0 :: stats where
  "stats0 = \<lparr>names_from_star = 0, star_imports_removed = 0, removed_imports = 0\<rparr>"

text \<open>
  The middle of \<open>_rewrite_source\<close>: the reparse of the flattened text with the drilled
  warnings, the density, and the remover behind its threshold. It returns the surviving
  declarations, the counters and \<open>import_proportion\<close>.
\<close>

definition reparse_and_remove ::
  "'t pylib \<Rightarrow> int option \<Rightarrow> stats \<Rightarrow> str list \<Rightarrow>
   error + (import_node list \<times> stats \<times> number)" where
  "reparse_and_remove env keep_threshhold st on_singleline =
     (case parse_toplevel_imports env on_singleline True of
        Inl e \<Rightarrow> Inl e
      | Inr (imports, warnings, lines_with_code) \<Rightarrow>
          (case density imports st lines_with_code of
             Inl e \<Rightarrow> Inl e
           | Inr proportion \<Rightarrow>
               if runs_remover keep_threshhold proportion then
                 (case warnings of
                    None \<Rightarrow> Inl TypeError
                  | Some ws \<Rightarrow>
                      (case remove_unused_names imports ws st of
                         (imports', st') \<Rightarrow> Inr (imports', st', proportion)))
               else Inr (imports, st, proportion)))"

text \<open>
  The second half of \<open>_rewrite_source\<close>, from the reparse on. \<open>is_changed\<close>:
  \<open>difflib.Differ\<close> reports a line added or removed exactly when the two line lists differ.
\<close>

definition rewrite_tail ::
  "'t pylib \<Rightarrow> str list \<Rightarrow> str \<Rightarrow> int option \<Rightarrow> nat \<Rightarrow> nat set \<Rightarrow> nat \<Rightarrow>
   stats \<Rightarrow> str list \<Rightarrow> error + (str list \<times> file_stats)" where
  "rewrite_tail env source_lines local_modules keep_threshhold original_imports
     import_gap_lines imports_start_on st on_singleline =
     (case reparse_and_remove env keep_threshhold st on_singleline of
        Inl e \<Rightarrow> Inl e
      | Inr (imports', st', proportion) \<Rightarrow>
          (case get_import_groups env imports' local_modules of
             Inl e \<Rightarrow> Inl e
           | Inr (future, stdlib, package, nosort_list, locals) \<Rightarrow>
               (case write_source source_lines [future, stdlib, package, locals, nosort_list]
                       import_gap_lines imports_start_on of
                  Inl e \<Rightarrow> Inl e
                | Inr rewritten \<Rightarrow>
                    Inr (rewritten,
                         \<lparr>counters = st', import_proportion = proportion,
                          import_line_delta = int (length imports') - int original_imports,
                          is_changed = (source_lines \<noteq> rewritten)\<rparr>))))"

definition rewrite_source ::
  "'t pylib \<Rightarrow> str list \<Rightarrow> str \<Rightarrow> int option \<Rightarrow> bool \<Rightarrow>
   error + (str list \<times> file_stats)" where
  "rewrite_source env source_lines local_modules keep_threshhold expand_stars =
     (case parse_toplevel_imports env source_lines False of
        Inl e \<Rightarrow> Inl e
      | Inr (imports, _, lines_with_code) \<Rightarrow>
          (let original_imports = length imports;
               imports_start_on = (case imports of [] \<Rightarrow> 0 | n # _ \<Rightarrow> lineno n)
           in case get_import_discard_lines source_lines imports lines_with_code of
                Inl e \<Rightarrow> Inl e
              | Inr import_gap_lines \<Rightarrow>
                  (case as_single_imports env imports stats0 expand_stars of
                     Inl e \<Rightarrow> Inl e
                   | Inr (flat, st1) \<Rightarrow>
                       (case dedupe_single_imports flat st1 of
                          Inl e \<Rightarrow> Inl e
                        | Inr (single, st2) \<Rightarrow>
                            (case write_source source_lines [single] import_gap_lines
                                    imports_start_on of
                               Inl e \<Rightarrow> Inl e
                             | Inr on_singleline \<Rightarrow>
                                 rewrite_tail env source_lines local_modules keep_threshhold
                                   original_imports import_gap_lines imports_start_on st2
                                   on_singleline)))))"

section \<open>\<open>main\<close>\<close>

record options =
  opt_module :: str
  keep_unused :: bool
  heuristic_unused :: "int option"
  statsonly :: bool
  expand_stars :: bool
  inplace :: bool
  filename :: "str list"

text \<open>
  What a run writes: the status line of a file on the error stream (with whether the file
  changed), the rewritten text on standard output, or the rewritten text into the file.
\<close>

datatype event = Status str bool | Stdout str | Written str str

definition lines_as_buffer :: "str list \<Rightarrow> str" where
  "lines_as_buffer lines = join [0x0A] lines @ [0x0A]"

text \<open>Truth value of \<open>options.heuristic_unused\<close>: \<open>None\<close> and 0 are false.\<close>

fun int_truthy :: "int option \<Rightarrow> bool" where
  "int_truthy None = False"
| "int_truthy (Some i) = (i \<noteq> 0)"

text \<open>
  \<open>open(filename)\<close> reads in text mode with universal newlines: in the decoded text of the
  file, \<open>\r\n\<close> and a lone \<open>\r\<close> are replaced by \<open>\n\<close> before the program sees a line.
\<close>

fun universal_newlines :: "str \<Rightarrow> str" where
  "universal_newlines [] = []"
| "universal_newlines [c] = [if c = 0x0D then 0x0A else c]"
| "universal_newlines (c # d # cs) =
     (if c = 0x0D \<and> d = 0x0A then 0x0A # universal_newlines cs
      else if c = 0x0D then 0x0A # universal_newlines (d # cs)
      else c # universal_newlines (d # cs))"

text \<open>
  The lines that iterating over the open file yields: each ends with its \<open>\n\<close>, except
  a last line that the file leaves without one.
\<close>

fun split_lines :: "str \<Rightarrow> str list" where
  "split_lines [] = []"
| "split_lines (c # cs) =
     (if c = 0x0A then [c] # split_lines cs
      else (case split_lines cs of
              [] \<Rightarrow> [[c]]
            | l # ls \<Rightarrow> (c # l) # ls))"

definition file_lines :: "str \<Rightarrow> str list" where
  "file_lines text = split_lines (universal_newlines text)"

text \<open>
  The loop over \<open>options.filename\<close>. The state is the file system (the decoded text of
  every file that can be opened and decoded; a file is written with the line separator
  \<open>\n\<close>), \<open>options.heuristic_unused\<close>, which the loop overwrites, and what has been written
  so far; an exception ends the run with the output written before it. The status line of
  a changed file formats \<open>import_proportion\<close> with \<open>%d\<close>, which raises OverflowError for an
  infinity.
\<close>

fun main_loop ::
  "'t pylib \<Rightarrow> options \<Rightarrow> str list \<Rightarrow> (str \<Rightarrow> str option) \<Rightarrow>
   event list \<Rightarrow> (str \<Rightarrow> str option) \<times> event list \<times> error option" where
  "main_loop env opts [] fs out = (fs, out, None)"
| "main_loop env opts (f # files) fs out =
     (case fs f of
        None \<Rightarrow> (fs, out, Some IOError)
      | Some text \<Rightarrow>
          (let source_lines = map rstrip (file_lines text) in
           case (if keep_unused opts then
                   (if int_truthy (heuristic_unused opts) then Inl ConfigConflict
                    else Inr (opts\<lparr>heuristic_unused := Some 0\<rparr>))
                 else Inr opts) of
             Inl e \<Rightarrow> (fs, out, Some e)
           | Inr opts' \<Rightarrow>
               (case rewrite_source env source_lines (opt_module opts')
                       (heuristic_unused opts') (expand_stars opts') of
                  Inl e \<Rightarrow> (fs, out, Some e)
                | Inr (result, st) \<Rightarrow>
                    (let out1 = out @ [Status f (is_changed st)] in
                     if is_changed st
                        \<and> (case import_proportion st of Infinity s \<Rightarrow> True | _ \<Rightarrow> False)
                     then (fs, out, Some OverflowError)
                     else if statsonly opts' then main_loop env opts' files fs out1
                     else if inplace opts' then
                       (if is_changed st
                        then main_loop env opts' files (fs(f \<mapsto> lines_as_buffer result))
                               (out1 @ [Written f (lines_as_buffer result)])
                        else main_loop env opts' files fs out1)
                     else main_loop env opts' files fs
                            (out1 @ [Stdout (lines_as_buffer result)])))))"

definition main ::
  "'t pylib \<Rightarrow> options \<Rightarrow> (str \<Rightarrow> str option) \<Rightarrow>
   (str \<Rightarrow> str option) \<times> event list \<times> error option" where
  "main env opts fs = main_loop env opts (filename opts) fs []"

section \<open>Specifications\<close>

subsection \<open>The deduplicator\<close>

text \<open>
  The specification of the deduplicator, on the declarations paired with their positions:
  the declaration kept for a key is the first one with that key that carries the
  suppress-removal flag, or, when no declaration with that key carries it, the first one
  with that key. (The first-seen declaration is replaced only by a flagged one and only
  while it is not flagged itself, so the first flagged one, once kept, stays.)
\<close>

definition kept_for :: "(nat \<times> import_node) list \<Rightarrow> hash_key \<Rightarrow> (nat \<times> import_node) option" where
  "kept_for es k =
     (case find (\<lambda>(i, n). hash_key_of n = Inr k \<and> noqa n) es of
        Some p \<Rightarrow> Some p
      | None \<Rightarrow> find (\<lambda>(i, n). hash_key_of n = Inr k) es)"

definition is_kept :: "(nat \<times> import_node) list \<Rightarrow> nat \<times> import_node \<Rightarrow> bool" where
  "is_kept es p =
     (case hash_key_of (snd p) of
        Inl e \<Rightarrow> False
      | Inr k \<Rightarrow> map_option fst (kept_for es k) = Some (fst p))"

fun with_key :: "nat \<times> import_node \<Rightarrow> nat \<times> import_node \<times> hash_key" where
  "with_key (i, n) = (i, n, (case hash_key_of n of Inr k \<Rightarrow> k | Inl e \<Rightarrow> ImportKey [] None))"

subsection \<open>Sort keys\<close>

text \<open>
  The leading module token of a declaration: the first dotted token of the module path of
  a from-import (empty without a module path), of the name of a direct import.
\<close>

definition leading_token :: "import_node \<Rightarrow> str" where
  "leading_token n =
     (case kind n of
        ImportFrom \<Rightarrow> (case module n of None \<Rightarrow> [] | Some m \<Rightarrow> hd (split_on 0x2E m))
      | Import \<Rightarrow> (case names n of [] \<Rightarrow> [] | a # _ \<Rightarrow> hd (split_on 0x2E (name a))))"

subsection \<open>The writer\<close>

text \<open>
  The lines of the source that the writer copies: those whose number is not in the gap set,
  each with its trailing whitespace stripped.
\<close>

definition kept_lines :: "(nat \<times> str) list \<Rightarrow> nat set \<Rightarrow> str list" where
  "kept_lines ls gap = map (\<lambda>(lnum, line). rstrip line) (filter (\<lambda>(lnum, line). lnum \<notin> gap) ls)"

text \<open>What the writer emits at the line where the imports began.\<close>

definition import_block :: "import_node list list \<Rightarrow> error + str list" where
  "import_block grouped_imports =
     (case write_groups grouped_imports [] False of
        Inl e \<Rightarrow> Inl e
      | Inr (buf, has_imports) \<Rightarrow> Inr (if has_imports then butlast buf else buf))"

text \<open>
  The source with the lines of the gap set dropped, the other lines stripped, and a block
  inserted before line \<open>start\<close> (when the source has such a line).
\<close>

definition frame :: "str list \<Rightarrow> nat set \<Rightarrow> nat \<Rightarrow> str list \<Rightarrow> str list" where
  "frame source_lines gap start block =
     kept_lines (take (start - 1) (enumerate 1 source_lines)) gap
     @ (if 1 \<le> start \<and> start \<le> length source_lines then block else [])
     @ kept_lines (drop (start - 1) (enumerate 1 source_lines)) gap"

text \<open>\<open>imports_start_on\<close>: the line of the first declaration, 0 without declarations.\<close>

definition start_line :: "import_node list \<Rightarrow> nat" where
  "start_line imps = (case imps of [] \<Rightarrow> 0 | n # _ \<Rightarrow> lineno n)"

subsection \<open>The groups\<close>

text \<open>
  The group of a declaration, the text of a declaration that binds a name, and the
  non-empty blocks of lines joined by one blank line.
\<close>

definition group_of :: "str set \<Rightarrow> str \<Rightarrow> import_node \<Rightarrow> import_group" where
  "group_of stdlib_names local_modules n =
     classify stdlib_names local_modules n (case names n of [] \<Rightarrow> [] | a # _ \<Rightarrow> name a)"

definition import_text :: "import_node \<Rightarrow> str" where
  "import_text n = (case write_singlename_import n of Inl e \<Rightarrow> [] | Inr l \<Rightarrow> l)"

fun join_blocks :: "str list list \<Rightarrow> str list" where
  "join_blocks [] = []"
| "join_blocks [b] = b"
| "join_blocks (b # c # bs) = b @ [[]] @ join_blocks (c # bs)"

text \<open>The rewritten lines of a result, without the statistics.\<close>

definition rewritten_text :: "error + (str list \<times> file_stats) \<Rightarrow> error + str list" where
  "rewritten_text r = (case r of Inl e \<Rightarrow> Inl e | Inr (out, st) \<Rightarrow> Inr out)"

subsection \<open>The stages of a run\<close>

text \<open>
  The intermediate values of \<open>_rewrite_source\<close> on a source: the declarations and the code
  lines read from the source, the gap set, the flattened and deduplicated declarations
  with the counters after these two stages, the flattened text, and the declarations, the
  drilled warnings and the code lines read from the flattened text.
\<close>

record run =
  source_imports :: "import_node list"
  source_code_lines :: "nat set"
  gap_lines :: "nat set"
  single_imports :: "import_node list"
  flat_counters :: stats
  flattened :: "str list"
  flat_imports :: "import_node list"
  flat_warnings :: "(str \<times> nat) set"
  flat_code_lines :: "nat set"

definition stages :: "'t pylib \<Rightarrow> str list \<Rightarrow> bool \<Rightarrow> run \<Rightarrow> bool" where
  "stages env src expand r =
     (parse_toplevel_imports env src False = Inr (source_imports r, None, source_code_lines r)
      \<and> get_import_discard_lines src (source_imports r) (source_code_lines r) = Inr (gap_lines r)
      \<and> (\<exists>flat st1.
            as_single_imports env (source_imports r) stats0 expand = Inr (flat, st1)
            \<and> dedupe_single_imports flat st1 = Inr (single_imports r, flat_counters r))
      \<and> write_source src [single_imports r] (gap_lines r) (start_line (source_imports r))
          = Inr (flattened r)
      \<and> parse_toplevel_imports env (flattened r) True
          = Inr (flat_imports r, Some (flat_warnings r), flat_code_lines r))"

text \<open>
  The declarations that are grouped and written: those read from the flattened text, after
  the remover when it runs.
\<close>

definition survivors :: "int option \<Rightarrow> run \<Rightarrow> import_node list" where
  "survivors keep_threshhold r =
     (case density (flat_imports r) (flat_counters r) (flat_code_lines r) of
        Inl e \<Rightarrow> []
      | Inr proportion \<Rightarrow>
          if runs_remover keep_threshhold proportion
          then fst (remove_unused_names (flat_imports r) (flat_warnings r) (flat_counters r))
          else flat_imports r)"

subsection \<open>The density\<close>

text \<open>
  The density of the specification for a count \<open>n\<close> of declarations (with the star
  corrections) and \<open>c\<close> lines of code, evaluated as the program evaluates it: 0 without
  code lines, and otherwise the quotient \<open>n / c\<close> rounded to a double and its product with
  100 rounded again.
\<close>

definition spec_density :: "int \<Rightarrow> nat \<Rightarrow> number" where
  "spec_density n c =
     (if c = 0 then IntNum 0
      else (case float_result (of_int n / of_int (int c)) of
              FloatNum ratio \<Rightarrow> float_result (ratio * 100)
            | other \<Rightarrow> other))"

text \<open>The density that a result reports.\<close>

definition reported_density :: "error + (str list \<times> file_stats) \<Rightarrow> error + number" where
  "reported_density r = (case r of Inl e \<Rightarrow> Inl e | Inr (out, st) \<Rightarrow> Inr (import_proportion st))"

subsection \<open>The drilling loop\<close>

text \<open>The loop of \<open>_drill_for_warnings\<close>, cut off after a number of iterations.\<close>

fun drill_fuel ::
  "nat \<Rightarrow> 't pylib \<Rightarrow> message list \<Rightarrow> str list \<Rightarrow> (str \<times> nat) set \<Rightarrow> nat set \<Rightarrow>
   (error + (str \<times> nat) set) option" where
  "drill_fuel 0 env messages source_lines warnings_set seen_lineno = None"
| "drill_fuel (Suc k) env messages source_lines warnings_set seen_lineno =
     (case drill_pass messages (source_lines, warnings_set, seen_lineno, False) of
        Inl e \<Rightarrow> Some (Inl e)
      | Inr (source_lines', warnings_set', seen_lineno', has_warnings) \<Rightarrow>
          if \<not> has_warnings then Some (Inr warnings_set')
          else
            (case ast_parse env (join [0x0A] source_lines') of
               None \<Rightarrow> Some (Inl SyntaxError)
             | Some tree \<Rightarrow>
                 drill_fuel k env (checker_messages env tree) source_lines' warnings_set'
                   seen_lineno'))"

text \<open>
  The checker reports unused imports on lines of the text: their line numbers start at 1.
\<close>

definition reports_lines :: "message list \<Rightarrow> bool" where
  "reports_lines messages = list_all (\<lambda>w. is_unused_import w \<longrightarrow> 1 \<le> msg_lineno w) messages"



text \<open>
  Line \<open>i\<close> (counted from 1) of a text is blank when stripping it leaves nothing; a
  declaration is plain when it binds one name and is not a star import that would be expanded.
\<close>

definition blank_line :: "str list \<Rightarrow> nat \<Rightarrow> bool" where
  "blank_line T i = (1 \<le> i \<and> i \<le> length T \<and> rstrip (T ! (i - 1)) = [])"

definition plain_single :: "bool \<Rightarrow> import_node \<Rightarrow> bool" where
  "plain_single xp d =
     (case names d of
        [a] \<Rightarrow> \<not> (kind d = ImportFrom \<and> name a = (ustr ''*'') \<and> xp)
      | _ \<Rightarrow> False)"

section \<open>Example inputs\<close>

text \<open>The nodes of \<open>import nm [as a]\<close> and of \<open>from ...m import nm [as a]\<close> on a given line.\<close>

definition import_stmt :: "str \<Rightarrow> str option \<Rightarrow> nat \<Rightarrow> bool \<Rightarrow> bool \<Rightarrow> import_node" where
  "import_stmt nm a lnum q s =
     \<lparr>kind = Import, module = None, level = 0, names = [\<lparr>name = nm, asname = a\<rparr>],
      lineno = lnum, noqa = q, nosort = s\<rparr>"

definition from_stmt ::
  "nat \<Rightarrow> str option \<Rightarrow> str \<Rightarrow> str option \<Rightarrow> nat \<Rightarrow> bool \<Rightarrow> bool \<Rightarrow> import_node" where
  "from_stmt lv m nm a lnum q s =
     \<lparr>kind = ImportFrom, module = m, level = lv, names = [\<lparr>name = nm, asname = a\<rparr>],
      lineno = lnum, noqa = q, nosort = s\<rparr>"

text \<open>
  \<open>str.lower\<close> on the strings whose code points are all below 256: the letters A to Z,
  U+00C0 to U+00D6 and U+00D8 to U+00DE move up by 32, every other code point below 256
  is its own lower case. The example texts stay within this range.
\<close>

definition latin1_lower :: "str \<Rightarrow> str" where
  "latin1_lower s =
     map (\<lambda>c. if (0x41 \<le> c \<and> c \<le> 0x5A) \<or> (0xC0 \<le> c \<and> c \<le> 0xD6) \<or> (0xD8 \<le> c \<and> c \<le> 0xDE)
              then c + 0x20 else c) s"

text \<open>
  A parser and checker given by a table: for each text it knows, the top-level import
  nodes, the line numbers of all nodes and the checker's messages. No module can be
  loaded. A set is read in the reverse of its insertion order, one of the orders that the
  interpreter can produce; in the examples no two declarations of a group have the same
  sort key, so their results are the same for every order.
\<close>

definition table_lib ::
  "(str \<times> import_node list \<times> nat list \<times> message list) list \<Rightarrow> str set \<Rightarrow>
   (import_node list \<times> nat list \<times> message list) pylib" where
  "table_lib table stdlib =
     \<lparr>ast_parse = map_of table,
      node_linenos = (\<lambda>(imports, linenos, messages). linenos),
      toplevel_imports = (\<lambda>(imports, linenos, messages). imports),
      checker_messages = (\<lambda>(imports, linenos, messages). messages),
      import_module_names = (\<lambda>m. None),
      STDLIB = stdlib,
      set_iteration = rev,
      str_lower = latin1_lower\<rparr>"

text \<open>The options of a run with no flag.\<close>

definition plain_options :: "str list \<Rightarrow> options" where
  "plain_options files =
     \<lparr>opt_module = [], keep_unused = False, heuristic_unused = None, statsonly = False,
      expand_stars = False, inplace = False, filename = files\<rparr>"

definition grouped_example :: "str list" where
  "grouped_example =
     map ustr [''from . import y'', ''import requests'', ''import os'',
      ''from __future__ import print_function'', ''from . import x  # noqa nosort'',
      ''print(os, x, y, requests)'']"

definition grouped_example_lib :: "(import_node list \<times> nat list \<times> message list) pylib" where
  "grouped_example_lib =
     table_lib
       [(join [0x0A] grouped_example,
         [from_stmt 1 None (ustr ''y'') None 1 False False,
          import_stmt (ustr ''requests'') None 2 False False,
          import_stmt (ustr ''os'') None 3 False False,
          from_stmt 0 (Some (ustr ''__future__'')) (ustr ''print_function'') None 4 False False,
          from_stmt 1 None (ustr ''x'') None 5 False False],
         [1, 2, 3, 4, 5, 6], [])]
       (ustr ` {''os'', ''sys''})"

definition unsorted_first_example :: "str list" where
  "unsorted_first_example =
     map ustr [''from . import x  # noqa nosort'', ''import os'', ''print(os, x)'']"

definition unsorted_first_lib :: "(import_node list \<times> nat list \<times> message list) pylib" where
  "unsorted_first_lib =
     table_lib
       [(join [0x0A] unsorted_first_example,
         [from_stmt 1 None (ustr ''x'') None 1 False False, import_stmt (ustr ''os'') None 2 False False],
         [1, 2, 3], [])]
       (ustr ` {''os'', ''sys''})"

text \<open>
  A source whose last line ends with a space, a no-break space (U+00A0) and an em space
  (U+2003).
\<close>

definition trailing_example :: "str list" where
  "trailing_example =
     [ustr ''from . import x  # noqa nosort'', ustr ''import os'',
      ustr ''print(os, x)'' @ [0x20, 0xA0, 0x2003]]"

definition trailing_example_lib :: "(import_node list \<times> nat list \<times> message list) pylib" where
  "trailing_example_lib =
     table_lib
       [(join [0x0A] trailing_example,
         [from_stmt 1 None (ustr ''x'') None 1 False False, import_stmt (ustr ''os'') None 2 False False],
         [1, 2, 3], []),
        (join [0x0A] unsorted_first_example,
         [from_stmt 1 None (ustr ''x'') None 1 False False, import_stmt (ustr ''os'') None 2 False False],
         [1, 2, 3], [])]
       (ustr ` {''os'', ''sys''})"

definition trailing_space_lib :: "(import_node list \<times> nat list \<times> message list) pylib" where
  "trailing_space_lib = table_lib [((ustr ''x = 1''), [], [1], [])] {}"

definition unused_import :: "str \<Rightarrow> nat \<Rightarrow> message" where
  "unused_import k l = \<lparr>is_unused_import = True, message_arg0 = k, msg_lineno = l\<rparr>"

text \<open>
  The message \<open>RedefinedWhileUnused\<close> of the checker for a name bound again on a line
  before its first binding was used.
\<close>

definition redefined_while_unused :: "str \<Rightarrow> nat \<Rightarrow> message" where
  "redefined_while_unused k l = \<lparr>is_unused_import = False, message_arg0 = k, msg_lineno = l\<rparr>"

definition duplicate_example :: "str list" where
  "duplicate_example = map ustr [''from x import a'', ''from y import a'']"

text \<open>
  The checker on two unused bindings of \<open>a\<close>: it reports the redefinition and the last
  binding as unused, and the first binding once the line of the last is blank.
\<close>

definition duplicate_lib :: "(import_node list \<times> nat list \<times> message list) pylib" where
  "duplicate_lib =
     table_lib
       [(join [0x0A] duplicate_example,
         [from_stmt 0 (Some (ustr ''x'')) (ustr ''a'') None 1 False False,
          from_stmt 0 (Some (ustr ''y'')) (ustr ''a'') None 2 False False],
         [1, 2], [redefined_while_unused (ustr ''a'') 2, unused_import (ustr ''y.a'') 2]),
        (join [0x0A] [(ustr ''from x import a''), []],
         [from_stmt 0 (Some (ustr ''x'')) (ustr ''a'') None 1 False False], [1], [unused_import (ustr ''x.a'') 1]),
        (join [0x0A] [[], []], [], [], [])]
       {}"



definition threshold_example :: "str list" where
  "threshold_example = map ustr [''import os, sys'', ''x = 1'', ''y = 2'']"

text \<open>
  Two unused imports on one line and two lines of code: after flattening, two
  declarations on four lines of code, a density of 50.
\<close>

definition threshold_lib :: "(import_node list \<times> nat list \<times> message list) pylib" where
  "threshold_lib =
     table_lib
       [(join [0x0A] threshold_example,
         [\<lparr>kind = Import, module = None, level = 0,
            names = [\<lparr>name = (ustr ''os''), asname = None\<rparr>, \<lparr>name = (ustr ''sys''), asname = None\<rparr>],
            lineno = 1, noqa = False, nosort = False\<rparr>],
         [1, 2, 3], [unused_import (ustr ''os'') 1, unused_import (ustr ''sys'') 1]),
        (join [0x0A] (map ustr [''import os'', ''import sys'', ''x = 1'', ''y = 2'']),
         [import_stmt (ustr ''os'') None 1 False False, import_stmt (ustr ''sys'') None 2 False False],
         [1, 2, 3, 4], [unused_import (ustr ''os'') 1, unused_import (ustr ''sys'') 2]),
        (join [0x0A] [[], [], (ustr ''x = 1''), (ustr ''y = 2'')], [], [3, 4], [])]
       (ustr ` {''os'', ''sys''})"

text \<open>
  Twenty-nine imports and twenty-one lines of code: the modules \<open>a\<close>, \<open>aa\<close>, \<open>ab\<close>, \<open>ac\<close>
  and \<open>b\<close> to \<open>z\<close>, a line that uses every module but \<open>a\<close>, and twenty assignments. The
  checker reports \<open>a\<close> as unused, and nothing once its line is blank.
\<close>

definition rounding_names :: "str list" where
  "rounding_names = map ustr [''a'', ''aa'', ''ab'', ''ac''] @ map (\<lambda>c. [c]) [0x62..0x7A]"

definition rounding_example :: "str list" where
  "rounding_example =
     map (\<lambda>n. ustr ''import '' @ n) rounding_names
     @ [ustr ''use = ['' @ join (ustr '', '') (tl rounding_names) @ ustr '']'']
     @ replicate 20 (ustr ''x = 1'')"

definition rounding_nodes :: "import_node list" where
  "rounding_nodes =
     map (\<lambda>(l, n). import_stmt n None l False False) (zip [1..<30] rounding_names)"

definition rounding_lib :: "(import_node list \<times> nat list \<times> message list) pylib" where
  "rounding_lib =
     table_lib
       [(join [0x0A] rounding_example, rounding_nodes, [1..<51], [unused_import (ustr ''a'') 1]),
        (join [0x0A] ([] # tl rounding_example), tl rounding_nodes, [2..<51], [])]
       (ustr ` {''os'', ''sys''})"

text \<open>
  A star import of a module that exports nothing, and an unused import, with the texts of
  the later passes.
\<close>

definition star_example :: "str list" where
  "star_example = map ustr [''from empty import *'', ''import os'', ''x = 1'']"

definition star_lib :: "(import_node list \<times> nat list \<times> message list) pylib" where
  "star_lib =
     (table_lib
        [(join [0x0A] star_example,
          [from_stmt 0 (Some (ustr ''empty'')) (ustr ''*'') None 1 False False,
           import_stmt (ustr ''os'') None 2 False False],
          [1, 2, 3], [unused_import (ustr ''os'') 2]),
         (join [0x0A] (map ustr [''import os'', ''x = 1'']),
          [import_stmt (ustr ''os'') None 1 False False], [1, 2], [unused_import (ustr ''os'') 1]),
         (join [0x0A] [[], (ustr ''x = 1'')], [], [2], [])]
        (ustr ` {''os'', ''sys''}))
     \<lparr>import_module_names := (\<lambda>m. if m = Some (ustr ''empty'') then Some [] else None)\<rparr>"

text \<open>
  A text already in rewritten form: one declaration per group, a blank line between the
  groups, the \<open>nosort\<close> declaration last. The library reads it and its flattened form.
\<close>

definition rewritten_block :: "str list" where
  "rewritten_block =
     [(ustr ''from __future__ import print_function''), [], (ustr ''import os''), [], (ustr ''import requests''), [],
      (ustr ''from . import y''), [], (ustr ''from . import x  # noqa nosort'')]"

definition rewritten_example :: "str list" where
  "rewritten_example = rewritten_block @ (map ustr [''print(os, x, y, requests)''])"

definition rewritten_lib :: "(import_node list \<times> nat list \<times> message list) pylib" where
  "rewritten_lib =
     table_lib
       [(join [0x0A] rewritten_example,
         [from_stmt 0 (Some (ustr ''__future__'')) (ustr ''print_function'') None 1 False False,
          import_stmt (ustr ''os'') None 3 False False,
          import_stmt (ustr ''requests'') None 5 False False,
          from_stmt 1 None (ustr ''y'') None 7 False False,
          from_stmt 1 None (ustr ''x'') None 9 False False],
         [1, 3, 5, 7, 9, 10], []),
        (join [0x0A]
           (map ustr [''from __future__ import print_function'', ''import os'', ''import requests'',
            ''from . import y'', ''from . import x  # noqa nosort'',
            ''print(os, x, y, requests)'']),
         [from_stmt 0 (Some (ustr ''__future__'')) (ustr ''print_function'') None 1 False False,
          import_stmt (ustr ''os'') None 2 False False,
          import_stmt (ustr ''requests'') None 3 False False,
          from_stmt 1 None (ustr ''y'') None 4 False False,
          from_stmt 1 None (ustr ''x'') None 5 False False],
         [1, 2, 3, 4, 5, 6], [])]
       (ustr ` {''os'', ''sys''})"

text \<open>
  A relative and an absolute import of the module whose name is the letter e with an acute
  accent (U+00E9), a valid identifier; with that name as local module prefix both are
  local.
\<close>

definition accented_example :: "str list" where
  "accented_example =
     [ustr ''from '' @ [0xE9] @ ustr '' import y'', ustr ''from .'' @ [0xE9] @ ustr '' import x'',
      ustr ''print(x, y)'']"

definition accented_lib :: "(import_node list \<times> nat list \<times> message list) pylib" where
  "accented_lib =
     table_lib
       [(join [0x0A] accented_example,
         [from_stmt 0 (Some [0xE9]) (ustr ''y'') None 1 False False,
          from_stmt 1 (Some [0xE9]) (ustr ''x'') None 2 False False],
         [1, 2, 3], [])]
       (ustr ` {''os'', ''sys''})"

section \<open>Literals\<close>

lemma ustr_eq_iff [simp]: "ustr a = ustr b \<longleftrightarrow> a = b"
proof -
  have "inj (of_char :: char \<Rightarrow> int)" by (rule injI) simp
  then show ?thesis unfolding ustr_def by (rule inj_map_eq_map)
qed

lemma ustr_Nil [simp]: "ustr [] = []"
  by (simp add: ustr_def)

lemma ustr_eq_Nil [simp]: "ustr a = [] \<longleftrightarrow> a = []" "[] = ustr a \<longleftrightarrow> a = []"
  by (auto simp: ustr_def)

lemma ustr_append: "ustr (a @ b) = ustr a @ ustr b"
  by (simp add: ustr_def)

section \<open>The writer\<close>

lemma kept_lines_Nil [simp]: "kept_lines [] gap = []"
  by (simp add: kept_lines_def)

lemma kept_lines_Cons [simp]:
  "kept_lines ((lnum, line) # ls) gap =
     (if lnum \<notin> gap then rstrip line # kept_lines ls gap else kept_lines ls gap)"
  by (simp add: kept_lines_def)

lemma kept_lines_append [simp]: "kept_lines (xs @ ys) gap = kept_lines xs gap @ kept_lines ys gap"
  by (simp add: kept_lines_def)

lemma write_lines_no_start:
  assumes "\<forall>p \<in> set ls. fst p \<noteq> start"
  shows "write_lines ls gs gap start buf has = Inr (buf @ kept_lines ls gap)"
  using assms
proof (induction ls arbitrary: buf)
  case Nil
  then show ?case by simp
next
  case (Cons p ls)
  obtain lnum line where p: "p = (lnum, line)" by (cases p)
  with Cons show ?case by simp
qed

lemma write_groups_buf:
  "write_groups gs buf has =
     (case write_groups gs [] False of
        Inl e \<Rightarrow> Inl e
      | Inr (b, h) \<Rightarrow> Inr (buf @ b, has \<or> h))"
proof (induction gs arbitrary: buf has)
  case Nil
  then show ?case by simp
next
  case (Cons g gs)
  show ?case
  proof (cases "write_imports g")
    case (Inl e)
    then show ?thesis by simp
  next
    case (Inr ls)
    show ?thesis
    proof (cases "g = []")
      case True
      with Inr show ?thesis using Cons.IH[of "buf @ ls" has] Cons.IH[of "[] @ ls" False]
        by (auto split: sum.splits)
    next
      case False
      with Inr show ?thesis using Cons.IH[of "buf @ ls @ [[]]" True] Cons.IH[of "ls @ [[]]" True]
        by (auto split: sum.splits)
    qed
  qed
qed

lemma write_groups_has_nonempty:
  "write_groups gs buf has = Inr (b, h) \<Longrightarrow> h \<Longrightarrow> has \<or> (\<exists>b'. b = buf @ b' \<and> b' \<noteq> [])"
proof (induction gs arbitrary: buf has)
  case Nil
  then show ?case by simp
next
  case (Cons g gs)
  from Cons.prems(1) obtain ls where ls: "write_imports g = Inr ls"
    by (cases "write_imports g") auto
  show ?case
  proof (cases "g = []")
    case True
    with ls Cons.prems have "write_groups gs (buf @ ls) has = Inr (b, h)" by simp
    from Cons.IH[OF this Cons.prems(2)] True ls show ?thesis by auto
  next
    case False
    with ls Cons.prems have "write_groups gs (buf @ ls @ [[]]) True = Inr (b, h)" by simp
    then obtain b0 h0 where b0: "write_groups gs [] False = Inr (b0, h0)"
      and b: "b = (buf @ ls @ [[]]) @ b0"
      using write_groups_buf[of gs "buf @ ls @ [[]]" True] by (auto split: sum.splits)
    then show ?thesis by auto
  qed
qed

lemma write_groups_at_start:
  "(case write_groups gs buf False of
      Inl e \<Rightarrow> Inl e
    | Inr (buf', has') \<Rightarrow> Inr (if has' then butlast buf' else buf', has'))
   = (case import_block gs of
        Inl e \<Rightarrow> Inl e
      | Inr blk \<Rightarrow> Inr (buf @ blk, (case write_groups gs [] False of Inr (b, h) \<Rightarrow> h | Inl e \<Rightarrow> False)))"
proof (cases "write_groups gs [] False")
  case (Inl e)
  then show ?thesis using write_groups_buf[of gs buf False] by (simp add: import_block_def)
next
  case (Inr r)
  obtain b h where r: "r = (b, h)" by (cases r)
  have full: "write_groups gs buf False = Inr (buf @ b, h)"
    using write_groups_buf[of gs buf False] Inr r by simp
  show ?thesis
  proof (cases h)
    case True
    from write_groups_has_nonempty[of gs "[]" False b h] Inr r True have "b \<noteq> []" by auto
    then have "butlast (buf @ b) = buf @ butlast b" by (simp add: butlast_append)
    with True full Inr r show ?thesis by (simp add: import_block_def)
  next
    case False
    with full Inr r show ?thesis by (simp add: import_block_def)
  qed
qed

lemma write_lines_with_start:
  assumes "\<forall>p \<in> set l1. fst p \<noteq> start" "\<forall>p \<in> set l2. fst p \<noteq> start"
  shows "write_lines (l1 @ (start, line) # l2) gs gap start buf False =
     (case import_block gs of
        Inl e \<Rightarrow> Inl e
      | Inr blk \<Rightarrow> Inr (buf @ kept_lines l1 gap @ blk @ kept_lines ((start, line) # l2) gap))"
  using assms(1)
proof (induction l1 arbitrary: buf)
  case Nil
  show ?case
  proof (cases "import_block gs")
    case (Inl e)
    then show ?thesis using write_groups_at_start[of gs buf] by (auto split: sum.splits)
  next
    case (Inr blk)
    then show ?thesis using write_groups_at_start[of gs buf]
      by (auto split: sum.splits simp: write_lines_no_start[OF assms(2)])
  qed
next
  case (Cons p l1)
  obtain lnum l where p: "p = (lnum, l)" by (cases p)
  with Cons show ?case by (auto split: sum.splits)
qed

lemma enumerate_split:
  assumes "1 \<le> start" "start \<le> length src"
  shows "enumerate 1 src = take (start - 1) (enumerate 1 src)
           @ (start, src ! (start - 1)) # drop start (enumerate 1 src)"
proof -
  have lt: "start - 1 < length (enumerate 1 src)" using assms by simp
  have "enumerate 1 src ! (start - 1) = (start, src ! (start - 1))"
    using assms by (simp add: nth_enumerate_eq)
  with id_take_nth_drop[OF lt] assms show ?thesis by simp
qed

lemma fst_enumerate_take: "p \<in> set (take k (enumerate 1 src)) \<Longrightarrow> fst p \<le> k"
  by (auto simp: in_set_conv_nth nth_enumerate_eq)

lemma fst_enumerate_drop: "p \<in> set (drop k (enumerate 1 src)) \<Longrightarrow> k < fst p"
  by (auto simp: in_set_conv_nth nth_enumerate_eq)

lemma fst_enumerate_range: "p \<in> set (enumerate 1 src) \<Longrightarrow> 1 \<le> fst p \<and> fst p \<le> length src"
  by (auto simp: in_set_conv_nth nth_enumerate_eq)

lemma write_source_enumerate:
  "write_source src gs gap start = write_lines (enumerate 1 src) gs gap start [] False"
  by (simp add: write_source_def enumerate_eq_zip del: upt_Suc)

lemma kept_lines_take_drop:
  "kept_lines (take k xs) gap @ kept_lines (drop k xs) gap = kept_lines xs gap"
  by (simp flip: kept_lines_append)

lemma write_source_frame:
  "write_source src gs gap start =
     (if 1 \<le> start \<and> start \<le> length src then
        (case import_block gs of
           Inl e \<Rightarrow> Inl e
         | Inr blk \<Rightarrow> Inr (frame src gap start blk))
      else Inr (frame src gap start []))"
proof (cases "1 \<le> start \<and> start \<le> length src")
  case True
  then have ge: "1 \<le> start" and le: "start \<le> length src" by simp_all
  let ?l1 = "take (start - 1) (enumerate 1 src)"
  let ?l2 = "drop start (enumerate 1 src)"
  have s1: "\<forall>p \<in> set ?l1. fst p \<noteq> start"
  proof
    fix p assume "p \<in> set ?l1"
    from fst_enumerate_take[OF this] ge show "fst p \<noteq> start" by linarith
  qed
  have s2: "\<forall>p \<in> set ?l2. fst p \<noteq> start"
  proof
    fix p assume "p \<in> set ?l2"
    from fst_enumerate_drop[OF this] show "fst p \<noteq> start" by simp
  qed
  have split: "enumerate 1 src = ?l1 @ (start, src ! (start - 1)) # ?l2"
    using ge le by (rule enumerate_split)
  have lt: "start - 1 < length (enumerate 1 src)" using ge le by simp
  have nth: "enumerate 1 src ! (start - 1) = (start, src ! (start - 1))"
    using ge le by (simp add: nth_enumerate_eq)
  have d: "drop (start - 1) (enumerate 1 src) = (start, src ! (start - 1)) # ?l2"
    using Cons_nth_drop_Suc[OF lt] nth ge by simp
  have "write_source src gs gap start
      = write_lines (?l1 @ (start, src ! (start - 1)) # ?l2) gs gap start [] False"
    unfolding write_source_enumerate using split by simp
  also have "\<dots> = (case import_block gs of
        Inl e \<Rightarrow> Inl e
      | Inr blk \<Rightarrow> Inr ([] @ kept_lines ?l1 gap @ blk
                        @ kept_lines ((start, src ! (start - 1)) # ?l2) gap))"
    by (rule write_lines_with_start[OF s1 s2])
  finally show ?thesis using True d by (auto simp: frame_def split: sum.splits)
next
  case False
  have "\<forall>p \<in> set (enumerate 1 src). fst p \<noteq> start"
  proof
    fix p assume "p \<in> set (enumerate 1 src)"
    from fst_enumerate_range[OF this] False show "fst p \<noteq> start" by auto
  qed
  from write_lines_no_start[OF this, of gs gap "[]" False]
  have "write_source src gs gap start = Inr (kept_lines (enumerate 1 src) gap)"
    by (simp add: write_source_enumerate)
  moreover have "frame src gap start [] = kept_lines (enumerate 1 src) gap"
    by (simp add: frame_def kept_lines_take_drop)
  ultimately show ?thesis using False by auto
qed

lemma parse_no_drill_warnings:
  "parse_toplevel_imports env src False = Inr (imps, ws, lwc) \<Longrightarrow> ws = None"
  by (auto simp: parse_toplevel_imports_def split: option.splits sum.splits)

lemma rewrite_source_stages:
  assumes "rewrite_source env src lm thr xp = Inr (out, st)"
  shows "\<exists>imps lwc gap flat st1 single st2 on_single imps' st' dens F S P N L.
     parse_toplevel_imports env src False = Inr (imps, None, lwc)
     \<and> get_import_discard_lines src imps lwc = Inr gap
     \<and> as_single_imports env imps stats0 xp = Inr (flat, st1)
     \<and> dedupe_single_imports flat st1 = Inr (single, st2)
     \<and> write_source src [single] gap (start_line imps) = Inr on_single
     \<and> reparse_and_remove env thr st2 on_single = Inr (imps', st', dens)
     \<and> get_import_groups env imps' lm = Inr (F, S, P, N, L)
     \<and> write_source src [F, S, P, L, N] gap (start_line imps) = Inr out
     \<and> st = \<lparr>counters = st', import_proportion = dens,
              import_line_delta = int (length imps') - int (length imps),
              is_changed = (src \<noteq> out)\<rparr>"
proof -
  from assms obtain imps ws lwc where p: "parse_toplevel_imports env src False = Inr (imps, ws, lwc)"
    by (cases "parse_toplevel_imports env src False") (auto simp: rewrite_source_def)
  from parse_no_drill_warnings[OF p] have ws: "ws = None" .
  from assms p obtain gap where g: "get_import_discard_lines src imps lwc = Inr gap"
    by (cases "get_import_discard_lines src imps lwc") (auto simp: rewrite_source_def Let_def)
  from assms p g obtain flat st1 where f: "as_single_imports env imps stats0 xp = Inr (flat, st1)"
    by (cases "as_single_imports env imps stats0 xp") (auto simp: rewrite_source_def Let_def)
  from assms p g f obtain single st2 where d: "dedupe_single_imports flat st1 = Inr (single, st2)"
    by (cases "dedupe_single_imports flat st1") (auto simp: rewrite_source_def Let_def)
  from assms p g f d obtain on_single
    where w1: "write_source src [single] gap (start_line imps) = Inr on_single"
    by (cases "write_source src [single] gap (start_line imps)")
       (auto simp: rewrite_source_def Let_def start_line_def)
  from assms p g f d w1
  have tail: "rewrite_tail env src lm thr (length imps) gap (start_line imps) st2 on_single
      = Inr (out, st)"
    by (simp add: rewrite_source_def Let_def start_line_def)
  then obtain imps' st' dens where r: "reparse_and_remove env thr st2 on_single = Inr (imps', st', dens)"
    by (cases "reparse_and_remove env thr st2 on_single") (auto simp: rewrite_tail_def)
  from tail r obtain F S P N L where gr: "get_import_groups env imps' lm = Inr (F, S, P, N, L)"
    by (cases "get_import_groups env imps' lm") (auto simp: rewrite_tail_def)
  from tail r gr have w2: "write_source src [F, S, P, L, N] gap (start_line imps) = Inr out"
    and st: "st = \<lparr>counters = st', import_proportion = dens,
              import_line_delta = int (length imps') - int (length imps),
              is_changed = (src \<noteq> out)\<rparr>"
    by (auto simp: rewrite_tail_def split: sum.splits)
  from p ws g f d w1 r gr w2 st show ?thesis by blast
qed

lemma write_source_Inr_frame:
  assumes "write_source src gs gap start = Inr out"
  shows "\<exists>blk. out = frame src gap start blk
     \<and> (1 \<le> start \<and> start \<le> length src \<longrightarrow> import_block gs = Inr blk)"
  using assms unfolding write_source_frame by (auto split: if_splits sum.splits)

lemma in_set_kept_lines:
  assumes "1 \<le> i" "i \<le> length src" "i \<notin> gap"
  shows "rstrip (src ! (i - 1)) \<in> set (kept_lines (enumerate 1 src) gap)"
proof -
  have "(i, src ! (i - 1)) \<in> set (enumerate 1 src)"
    using assms by (auto simp: in_set_enumerate_eq)
  with assms(3) show ?thesis by (force simp: kept_lines_def)
qed

lemma set_frame:
  "set (kept_lines (enumerate 1 src) gap) \<subseteq> set (frame src gap start blk)"
proof -
  have "set (kept_lines (enumerate 1 src) gap)
      = set (kept_lines (take (start - 1) (enumerate 1 src)) gap
             @ kept_lines (drop (start - 1) (enumerate 1 src)) gap)"
    by (simp only: kept_lines_take_drop)
  then have "set (kept_lines (enumerate 1 src) gap)
      = set (kept_lines (take (start - 1) (enumerate 1 src)) gap)
        \<union> set (kept_lines (drop (start - 1) (enumerate 1 src)) gap)"
    by (simp only: set_append)
  then show ?thesis by (auto simp: frame_def)
qed

lemma group_loop_filter:
  assumes "group_loop sl lm imps (f, s, p, n, l) = Inr (F, S, P, N, L)"
  shows "F = f @ filter (\<lambda>x. group_of sl lm x = Future) imps
       \<and> S = s @ filter (\<lambda>x. group_of sl lm x = Stdlib) imps
       \<and> P = p @ filter (\<lambda>x. group_of sl lm x = Package) imps
       \<and> N = n @ filter (\<lambda>x. group_of sl lm x = Nosort) imps
       \<and> L = l @ filter (\<lambda>x. group_of sl lm x = Locals) imps"
  using assms
proof (induction imps arbitrary: f s p n l)
  case Nil
  then show ?case by simp
next
  case (Cons x imps)
  from Cons.prems obtain a where a: "names x = [a]"
    by (cases "names x"; cases "tl (names x)") auto
  show ?case
  proof (cases "classify sl lm x (name a)")
    case Future
    with Cons.prems a have "group_loop sl lm imps (f @ [x], s, p, n, l) = Inr (F, S, P, N, L)"
      by simp
    from Cons.IH[OF this] Future a show ?thesis by (simp add: group_of_def)
  next
    case Stdlib
    with Cons.prems a have "group_loop sl lm imps (f, s @ [x], p, n, l) = Inr (F, S, P, N, L)"
      by simp
    from Cons.IH[OF this] Stdlib a show ?thesis by (simp add: group_of_def)
  next
    case Package
    with Cons.prems a have "group_loop sl lm imps (f, s, p @ [x], n, l) = Inr (F, S, P, N, L)"
      by simp
    from Cons.IH[OF this] Package a show ?thesis by (simp add: group_of_def)
  next
    case Locals
    with Cons.prems a have "group_loop sl lm imps (f, s, p, n, l @ [x]) = Inr (F, S, P, N, L)"
      by simp
    from Cons.IH[OF this] Locals a show ?thesis by (simp add: group_of_def)
  next
    case Nosort
    with Cons.prems a have "group_loop sl lm imps (f, s, p, n @ [x], l) = Inr (F, S, P, N, L)"
      by simp
    from Cons.IH[OF this] Nosort a show ?thesis by (simp add: group_of_def)
  qed
qed

lemma get_import_groups_filter:
  assumes "get_import_groups env imps lm = Inr (F, S, P, N, L)"
  shows "F = sorted_group env (filter (\<lambda>x. group_of (STDLIB env) lm x = Future) imps)
       \<and> S = sorted_group env (filter (\<lambda>x. group_of (STDLIB env) lm x = Stdlib) imps)
       \<and> P = sorted_group env (filter (\<lambda>x. group_of (STDLIB env) lm x = Package) imps)
       \<and> N = filter (\<lambda>x. group_of (STDLIB env) lm x = Nosort) imps
       \<and> L = sorted_group env (filter (\<lambda>x. group_of (STDLIB env) lm x = Locals) imps)"
proof -
  from assms obtain f s p n l
    where loop: "group_loop (STDLIB env) lm imps ([], [], [], [], []) = Inr (f, s, p, n, l)"
      and res: "F = sorted_group env f" "S = sorted_group env s" "P = sorted_group env p"
        "N = n" "L = sorted_group env l"
    by (auto simp: get_import_groups_def split: sum.splits)
  from group_loop_filter[OF loop] res show ?thesis by simp
qed

lemma sorted_group_sorted:
  "sorted (map (node_sort_key (str_lower env)) (sorted_group env members))"
  by (simp add: sorted_group_def)

lemma sorted_group_mset:
  assumes "mset (set_iteration env members) = mset members"
  shows "mset (sorted_group env members) = mset members"
  using assms by (simp add: sorted_group_def)

lemma write_imports_Inr: "write_imports g = Inr ls \<Longrightarrow> ls = map import_text g"
proof (induction g arbitrary: ls)
  case Nil
  then show ?case by simp
next
  case (Cons n g)
  then show ?case by (auto simp: import_text_def split: sum.splits)
qed

lemma write_groups_Inr:
  "write_groups gs [] False = Inr (b, h) \<Longrightarrow>
     b = concat (map (\<lambda>g. map import_text g @ [[]]) (filter (\<lambda>g. g \<noteq> []) gs))
     \<and> h = (filter (\<lambda>g. g \<noteq> []) gs \<noteq> [])"
proof (induction gs arbitrary: b h)
  case Nil
  then show ?case by simp
next
  case (Cons g gs)
  from Cons.prems obtain ls where ls: "write_imports g = Inr ls"
    by (cases "write_imports g") auto
  from write_imports_Inr[OF ls] have lsm: "ls = map import_text g" .
  show ?case
  proof (cases "g = []")
    case True
    with ls Cons.prems have "write_groups gs [] False = Inr (b, h)" by simp
    from Cons.IH[OF this] True show ?thesis by simp
  next
    case False
    with ls Cons.prems have "write_groups gs (ls @ [[]]) True = Inr (b, h)" by simp
    then obtain b0 h0 where r: "write_groups gs [] False = Inr (b0, h0)"
      and b: "b = (ls @ [[]]) @ b0" and h: "h = True"
      using write_groups_buf[of gs "ls @ [[]]" True] by (auto split: sum.splits)
    from Cons.IH[OF r] b h False lsm show ?thesis by simp
  qed
qed

lemma butlast_concat_blocks:
  "bs \<noteq> [] \<Longrightarrow> butlast (concat (map (\<lambda>b. b @ [[]]) bs)) = join_blocks bs"
proof (induction bs rule: join_blocks.induct)
  case 1
  then show ?case by simp
next
  case (2 b)
  then show ?case by simp
next
  case (3 b c bs)
  then show ?case by (simp add: butlast_append)
qed

lemma import_block_Inr:
  assumes "import_block gs = Inr blk"
  shows "blk = join_blocks (map (map import_text) (filter (\<lambda>g. g \<noteq> []) gs))"
proof -
  from assms obtain b h where r: "write_groups gs [] False = Inr (b, h)"
    and blk: "blk = (if h then butlast b else b)"
    by (auto simp: import_block_def split: sum.splits)
  from write_groups_Inr[OF r]
  have b: "b = concat (map (\<lambda>g. map import_text g @ [[]]) (filter (\<lambda>g. g \<noteq> []) gs))"
    and h: "h = (filter (\<lambda>g. g \<noteq> []) gs \<noteq> [])" by simp_all
  let ?bs = "map (map import_text) (filter (\<lambda>g. g \<noteq> []) gs)"
  have b': "b = concat (map (\<lambda>b. b @ [[]]) ?bs)" by (simp add: b comp_def)
  show ?thesis
  proof (cases h)
    case True
    with h have "?bs \<noteq> []" by simp
    from butlast_concat_blocks[OF this] True blk b' show ?thesis by simp
  next
    case False
    with h blk b show ?thesis by simp
  qed
qed

section \<open>The stages of the rewrite\<close>

lemma parse_drill_warnings:
  "parse_toplevel_imports env src True = Inr (imps, w, lwc) \<Longrightarrow> \<exists>ws. w = Some ws"
  by (auto simp: parse_toplevel_imports_def split: option.splits sum.splits)

lemma parse_code_lines_finite:
  "parse_toplevel_imports env src d = Inr (imps, w, lwc) \<Longrightarrow> finite lwc"
  by (auto simp: parse_toplevel_imports_def split: option.splits sum.splits if_splits)

lemma annotate_linenos:
  "annotate src ns = Inr ns' \<Longrightarrow>
     map lineno ns' = map lineno ns \<and> (\<forall>n \<in> set ns. lineno n \<le> length src)"
proof (induction ns arbitrary: ns')
  case Nil
  then show ?case by simp
next
  case (Cons n ns)
  from Cons.prems obtain l where l: "line_at src (lineno n) = Some l"
    by (auto split: option.splits)
  with Cons.prems obtain ms where ms: "annotate src ns = Inr ms"
    by (auto split: sum.splits)
  from l ms Cons.prems Cons.IH[OF ms] line_at_Some_le[OF l] show ?case
    by (auto split: option.splits)
qed

text \<open>Every declaration that the parser reports lies on a line of the text.\<close>

lemma parse_linenos_in_text:
  assumes "parse_toplevel_imports env src d = Inr (imps, w, lwc)"
  shows "\<forall>n \<in> set imps. lineno n \<le> length src"
proof -
  from assms obtain tree where a: "annotate src (toplevel_imports env tree) = Inr imps"
    by (auto simp: parse_toplevel_imports_def split: option.splits sum.splits if_splits)
  from annotate_linenos[OF a] show ?thesis
    by (metis (no_types, lifting) imageE image_eqI list.set_map)
qed

lemma reparse_and_remove_gate:
  assumes "parse_toplevel_imports env on_single True = Inr (imps, Some ws, lwc)"
  shows "reparse_and_remove env thr st on_single =
     (case density imps st lwc of
        Inl e \<Rightarrow> Inl e
      | Inr d \<Rightarrow>
          if runs_remover thr d
          then Inr (fst (remove_unused_names imps ws st), snd (remove_unused_names imps ws st), d)
          else Inr (imps, st, d))"
  using assms
  by (auto simp: reparse_and_remove_def split: prod.splits sum.splits)

lemma reparse_and_remove_Inr:
  assumes "reparse_and_remove env thr st on_single = Inr r"
  shows "\<exists>imps ws lwc. parse_toplevel_imports env on_single True = Inr (imps, Some ws, lwc)"
proof -
  from assms obtain imps w lwc where p: "parse_toplevel_imports env on_single True = Inr (imps, w, lwc)"
    by (cases "parse_toplevel_imports env on_single True") (auto simp: reparse_and_remove_def)
  from parse_drill_warnings[OF p] p show ?thesis by blast
qed

text \<open>
  A successful rewrite has passed through every stage: the output is written from the
  groups of the survivors, and the statistics report the density of the flattened text.
\<close>

lemma rewrite_source_run:
  assumes "rewrite_source env src lm thr xp = Inr (out, st)"
  shows "\<exists>r F S P N L.
     stages env src xp r
     \<and> density (flat_imports r) (flat_counters r) (flat_code_lines r)
         = Inr (import_proportion st)
     \<and> counters st =
         (if runs_remover thr (import_proportion st)
          then snd (remove_unused_names (flat_imports r) (flat_warnings r) (flat_counters r))
          else flat_counters r)
     \<and> get_import_groups env (survivors thr r) lm = Inr (F, S, P, N, L)
     \<and> write_source src [F, S, P, L, N] (gap_lines r) (start_line (source_imports r)) = Inr out
     \<and> import_line_delta st
         = int (length (survivors thr r)) - int (length (source_imports r))
     \<and> is_changed st = (src \<noteq> out)"
proof -
  from rewrite_source_stages[OF assms] obtain imps lwc gap flat st1 single st2 on_single imps' st'
      dens F S P N L where
    p: "parse_toplevel_imports env src False = Inr (imps, None, lwc)"
    and g: "get_import_discard_lines src imps lwc = Inr gap"
    and f: "as_single_imports env imps stats0 xp = Inr (flat, st1)"
    and d: "dedupe_single_imports flat st1 = Inr (single, st2)"
    and w1: "write_source src [single] gap (start_line imps) = Inr on_single"
    and rr: "reparse_and_remove env thr st2 on_single = Inr (imps', st', dens)"
    and gr: "get_import_groups env imps' lm = Inr (F, S, P, N, L)"
    and w2: "write_source src [F, S, P, L, N] gap (start_line imps) = Inr out"
    and st: "st = \<lparr>counters = st', import_proportion = dens,
              import_line_delta = int (length imps') - int (length imps),
              is_changed = (src \<noteq> out)\<rparr>"
    by blast
  from reparse_and_remove_Inr[OF rr] obtain imps1 ws lwc1
    where p1: "parse_toplevel_imports env on_single True = Inr (imps1, Some ws, lwc1)" by blast
  define r where "r = \<lparr>source_imports = imps, source_code_lines = lwc, gap_lines = gap,
     single_imports = single, flat_counters = st2, flattened = on_single, flat_imports = imps1,
     flat_warnings = ws, flat_code_lines = lwc1\<rparr>"
  have stg: "stages env src xp r"
    using p g f d w1 p1 by (auto simp: stages_def r_def)
  from rr reparse_and_remove_gate[OF p1, of thr st2]
  have dn: "density imps1 st2 lwc1 = Inr dens"
    and res: "(imps', st') = (if runs_remover thr dens
        then (fst (remove_unused_names imps1 ws st2), snd (remove_unused_names imps1 ws st2))
        else (imps1, st2))"
    by (auto split: sum.splits if_splits)
  have sv: "survivors thr r = imps'"
  proof (cases "runs_remover thr dens")
    case True
    with res have "fst (remove_unused_names imps1 ws st2) = imps'" by (metis fst_conv)
    with True dn show ?thesis by (simp add: survivors_def r_def)
  next
    case False
    with res dn show ?thesis by (simp add: survivors_def r_def)
  qed
  have "density (flat_imports r) (flat_counters r) (flat_code_lines r)
      = Inr (import_proportion st)"
    using dn st by (simp add: r_def)
  moreover have "counters st =
         (if runs_remover thr (import_proportion st)
          then snd (remove_unused_names (flat_imports r) (flat_warnings r) (flat_counters r))
          else flat_counters r)"
  proof (cases "runs_remover thr dens")
    case True
    with res have "snd (remove_unused_names imps1 ws st2) = st'" by (metis snd_conv)
    with True st show ?thesis by (simp add: r_def)
  next
    case False
    with res st show ?thesis by (simp add: r_def)
  qed
  moreover have "get_import_groups env (survivors thr r) lm = Inr (F, S, P, N, L)"
    using gr sv by simp
  moreover have "write_source src [F, S, P, L, N] (gap_lines r) (start_line (source_imports r))
      = Inr out"
    using w2 by (simp add: r_def)
  moreover have "import_line_delta st
      = int (length (survivors thr r)) - int (length (source_imports r))"
    using st sv by (simp add: r_def)
  moreover have "is_changed st = (src \<noteq> out)" using st by simp
  ultimately show ?thesis using stg by blast
qed

section \<open>The gap set\<close>

lemma gap_scan_mono:
  "gap_scan src lwc gaps acc = Inr g \<Longrightarrow> acc \<subseteq> g"
proof (induction gaps arbitrary: acc)
  case Nil
  then show ?case by simp
next
  case (Cons x gaps)
  show ?case
  proof (cases "x \<in> lwc")
    case True
    with Cons.prems show ?thesis by simp
  next
    case False
    with Cons.prems obtain line where l: "line_at src x = Some line"
      by (auto split: option.splits)
    with False Cons.prems
    have "gap_scan src lwc gaps (if \<not> is_whitespace_or_comment line then insert x acc else acc)
        = Inr g" by simp
    from Cons.IH[OF this] show ?thesis by (auto split: if_splits)
  qed
qed

lemma gap_loop_mono:
  "gap_loop src lwc prev lnums acc = Inr g \<Longrightarrow> acc \<subseteq> g"
proof (induction lnums arbitrary: prev acc)
  case Nil
  then show ?case by simp
next
  case (Cons l lnums)
  show ?case
  proof (cases prev)
    case None
    with Cons.prems have "gap_loop src lwc (Some l) lnums acc = Inr g" by simp
    from Cons.IH[OF this] show ?thesis .
  next
    case (Some p)
    with Cons.prems obtain gaps where s: "gap_scan src lwc [Suc p..<l] acc = Inr gaps"
      and r: "gap_loop src lwc (Some l) lnums gaps = Inr g"
      by (auto split: sum.splits)
    from gap_scan_mono[OF s] Cons.IH[OF r] show ?thesis by blast
  qed
qed

lemma whitespace_sweep_mono:
  "whitespace_sweep src pairs acc = Inr g \<Longrightarrow> acc \<subseteq> g"
proof (induction pairs arbitrary: acc)
  case Nil
  then show ?case by simp
next
  case (Cons p pairs)
  obtain a b where p: "p = (a, b)" by (cases p)
  with Cons.prems obtain ws where
    r: "whitespace_sweep src pairs (if ws \<noteq> [] then acc \<union> set ws else acc) = Inr g"
    by (auto split: sum.splits)
  from Cons.IH[OF this] show ?case by (auto split: if_splits)
qed

text \<open>Every line on which a declaration starts is in the gap set.\<close>

lemma import_lines_in_gap:
  assumes "get_import_discard_lines src imps lwc = Inr gap"
  shows "lineno ` set imps \<subseteq> gap"
proof -
  from assms obtain g0 where
    l: "gap_loop src lwc None (map lineno imps @ [length src + 1]) (set (map lineno imps)) = Inr g0"
    and s: "whitespace_sweep src
              (zip (butlast (sorted_list_of_set g0)) (tl (sorted_list_of_set g0))) g0 = Inr gap"
    by (auto simp: get_import_discard_lines_def Let_def split: sum.splits)
  from gap_loop_mono[OF l] whitespace_sweep_mono[OF s] show ?thesis by auto
qed

section \<open>The remover on single-name declarations\<close>




section \<open>The output of a rewrite\<close>

lemma frame_outside:
  "\<not> (1 \<le> start \<and> start \<le> length src) \<Longrightarrow> frame src gap start blk = frame src gap start []"
  by (auto simp: frame_def)

text \<open>
  What a successful rewrite writes: the frame of the source around the block of the
  groups of the survivors.
\<close>

lemma rewrite_source_output:
  assumes "rewrite_source env src lm thr xp = Inr (out, st)"
  shows "\<exists>r F S P N L.
     stages env src xp r
     \<and> get_import_groups env (survivors thr r) lm = Inr (F, S, P, N, L)
     \<and> out = frame src (gap_lines r) (start_line (source_imports r))
               (join_blocks (map (map import_text) (filter (\<lambda>g. g \<noteq> []) [F, S, P, L, N])))"
proof -
  from rewrite_source_run[OF assms] obtain r F S P N L where
    stg: "stages env src xp r"
    and gr: "get_import_groups env (survivors thr r) lm = Inr (F, S, P, N, L)"
    and w: "write_source src [F, S, P, L, N] (gap_lines r) (start_line (source_imports r))
        = Inr out"
    by blast
  let ?start = "start_line (source_imports r)"
  let ?blk = "join_blocks (map (map import_text) (filter (\<lambda>g. g \<noteq> []) [F, S, P, L, N]))"
  from write_source_Inr_frame[OF w] obtain blk
    where out: "out = frame src (gap_lines r) ?start blk"
      and blk: "1 \<le> ?start \<and> ?start \<le> length src \<longrightarrow> import_block [F, S, P, L, N] = Inr blk"
    by blast
  have "out = frame src (gap_lines r) ?start ?blk"
  proof (cases "1 \<le> ?start \<and> ?start \<le> length src")
    case True
    with blk import_block_Inr have "blk = ?blk" by blast
    with out show ?thesis by simp
  next
    case False
    from frame_outside[OF False, of "gap_lines r" blk] frame_outside[OF False, of "gap_lines r" ?blk]
      out show ?thesis by simp
  qed
  with stg gr show ?thesis by blast
qed

section \<open>The deduplicator keeps one declaration per identity key\<close>

lemma find_append_case:
  "find P (xs @ ys) = (case find P xs of Some x \<Rightarrow> Some x | None \<Rightarrow> find P ys)"
  by (induction xs) auto

lemma find_Some_holds: "find P xs = Some x \<Longrightarrow> P x"
  by (induction xs) (auto split: if_splits)

lemma kept_for_snoc:
  assumes "hash_key_of n = Inr k"
  shows "kept_for (es @ [(i, n)]) =
     (case kept_for es k of
        Some (j, m) \<Rightarrow> if noqa n \<and> \<not> noqa m then (kept_for es)(k \<mapsto> (i, n)) else kept_for es
      | None \<Rightarrow> (kept_for es)(k \<mapsto> (i, n)))"
proof (rule ext)
  fix k'
  let ?Q = "\<lambda>k. (\<lambda>(i, n). hash_key_of n = Inr k \<and> noqa n)"
  let ?P = "\<lambda>k. (\<lambda>(i, n). hash_key_of n = Inr k)"
  show "kept_for (es @ [(i, n)]) k' =
     (case kept_for es k of
        Some (j, m) \<Rightarrow> if noqa n \<and> \<not> noqa m then (kept_for es)(k \<mapsto> (i, n)) else kept_for es
      | None \<Rightarrow> (kept_for es)(k \<mapsto> (i, n))) k'"
  proof (cases "k' = k")
    case False
    with assms have "kept_for (es @ [(i, n)]) k' = kept_for es k'"
      by (auto simp: kept_for_def find_append_case split: option.splits)
    with False show ?thesis by (auto split: option.splits)
  next
    case True
    show ?thesis
    proof (cases "find (?Q k) es")
      case (Some p)
      then have "noqa (snd p)" using find_Some_holds[OF Some] by (cases p) auto
      with Some True assms show ?thesis
        by (cases p) (auto simp: kept_for_def find_append_case split: option.splits)
    next
      case None
      note noQ = this
      show ?thesis
      proof (cases "find (?P k) es")
        case None
        with noQ True assms show ?thesis
          by (auto simp: kept_for_def find_append_case split: option.splits)
      next
        case (Some p)
        have "\<not> noqa (snd p)"
        proof
          assume q: "noqa (snd p)"
          have "?P k p" using find_Some_holds[OF Some] .
          with q have "?Q k p" by (cases p) auto
          moreover have "p \<in> set es" using Some by (auto simp: find_Some_iff in_set_conv_nth)
          ultimately have "find (?Q k) es \<noteq> None" by (auto simp: find_None_iff)
          with noQ show False by simp
        qed
        with noQ Some True assms show ?thesis
          by (cases p) (auto simp: kept_for_def find_append_case split: option.splits)
      qed
    qed
  qed
qed

lemma kept_for_Nil: "kept_for [] = Map.empty"
  by (rule ext) (simp add: kept_for_def)

lemma dedupe_scan_kept_for:
  assumes "\<forall>p \<in> set rest. \<exists>a. names (snd p) = [a]"
  shows "dedupe_scan rest (kept_for done) orig =
           Inr (kept_for (done @ rest), orig @ map with_key rest)"
  using assms
proof (induction rest arbitrary: "done" orig)
  case Nil
  then show ?case by simp
next
  case (Cons p rest)
  obtain i n where p: "p = (i, n)" by (cases p)
  from Cons.prems p obtain a where a: "names n = [a]" by auto
  then obtain k where k: "hash_key_of n = Inr k"
    by (cases "kind n") (auto simp: hash_key_of_def)
  have step: "(case kept_for done k of
               Some (j, m) \<Rightarrow> if noqa n \<and> \<not> noqa m then (kept_for done)(k \<mapsto> (i, n)) else kept_for done
             | None \<Rightarrow> (kept_for done)(k \<mapsto> (i, n))) = kept_for (done @ [(i, n)])"
    using kept_for_snoc[OF k, of "done" i] by simp
  have "dedupe_scan (p # rest) (kept_for done) orig =
        dedupe_scan rest (kept_for (done @ [(i, n)])) (orig @ [(i, n, k)])"
    unfolding p by (simp add: k step)
  also have "\<dots> = Inr (kept_for ((done @ [(i, n)]) @ rest), (orig @ [(i, n, k)]) @ map with_key rest)"
    using Cons.prems by (intro Cons.IH) auto
  finally show ?case by (simp add: p k)
qed

lemma kept_for_member:
  assumes "(i, n) \<in> set es" "hash_key_of n = Inr k"
  shows "\<exists>p. kept_for es k = Some p"
proof -
  have "find (\<lambda>(i, n). hash_key_of n = Inr k) es \<noteq> None"
    using assms by (auto simp: find_None_iff)
  then show ?thesis by (auto simp: kept_for_def split: option.splits)
qed

lemma dedupe_emit_filter:
  assumes "\<forall>p \<in> set rest. \<exists>a. names (snd p) = [a]" "set rest \<subseteq> set es"
  shows "dedupe_emit (map with_key rest) (kept_for es) st =
           Inr (map snd (filter (is_kept es) rest),
                st\<lparr>removed_imports := removed_imports st
                   + int (length (filter (\<lambda>p. \<not> is_kept es p) rest))\<rparr>)"
  using assms
proof (induction rest arbitrary: st)
  case Nil
  then show ?case by simp
next
  case (Cons p rest)
  obtain i n where p: "p = (i, n)" by (cases p)
  from Cons.prems p obtain a where a: "names n = [a]" by auto
  then obtain k where k: "hash_key_of n = Inr k"
    by (cases "kind n") (auto simp: hash_key_of_def)
  from Cons.prems p have "(i, n) \<in> set es" by auto
  from kept_for_member[OF this k] obtain j m where jm: "kept_for es k = Some (j, m)" by auto
  have kept: "is_kept es p = (j = i)" by (simp add: is_kept_def p k jm)
  have IH: "\<And>st. dedupe_emit (map with_key rest) (kept_for es) st =
           Inr (map snd (filter (is_kept es) rest),
                st\<lparr>removed_imports := removed_imports st
                   + int (length (filter (\<lambda>p. \<not> is_kept es p) rest))\<rparr>)"
    using Cons.prems by (intro Cons.IH) auto
  show ?case
  proof (cases "j = i")
    case True
    then show ?thesis using kept by (simp add: p k jm IH)
  next
    case False
    then show ?thesis using kept by (simp add: p k jm IH)
  qed
qed

text \<open>
  Claim C5. For a flattened declaration list (every declaration binds one name),
  \<open>_dedupe_single_imports\<close> succeeds; it yields, in the order of the input, exactly the
  declarations that are the kept one of their identity key (the first with that key,
  unless a later one with that key is flagged suppress-removal and the first is not: then
  the first flagged one), and adds the number of dropped declarations to the counter
  \<open>removed_imports\<close>.
\<close>

theorem dedupe_keeps_first_or_suppressed:
  assumes "\<forall>n \<in> set import_nodes. \<exists>a. names n = [a]"
  shows "dedupe_single_imports import_nodes st =
           Inr (map snd (filter (is_kept (enumerate 0 import_nodes)) (enumerate 0 import_nodes)),
                st\<lparr>removed_imports := removed_imports st + int (length import_nodes)
                   - int (length (filter (is_kept (enumerate 0 import_nodes))
                                    (enumerate 0 import_nodes)))\<rparr>)"
proof -
  let ?es = "zip [0..<length import_nodes] import_nodes"
  have single: "\<forall>p \<in> set ?es. \<exists>a. names (snd p) = [a]"
    using assms by (auto dest: set_zip_rightD)
  have scan: "dedupe_scan ?es Map.empty [] = Inr (kept_for ?es, map with_key ?es)"
    using dedupe_scan_kept_for[OF single, of "[]" "[]"] by (simp add: kept_for_Nil)
  have len: "int (length (filter (\<lambda>p. \<not> is_kept ?es p) ?es))
        = int (length import_nodes) - int (length (filter (is_kept ?es) ?es))"
    using sum_length_filter_compl[of "is_kept ?es" ?es] by simp
  show ?thesis
    unfolding dedupe_single_imports_def scan enumerate_eq_zip
    using dedupe_emit_filter[OF single subset_refl, of st] len by simp
qed

theorem dedupe_keeps_first_or_suppressed_witness:
  "dedupe_single_imports
     [import_stmt (ustr ''os'') None 1 False False, import_stmt (ustr ''sys'') None 2 False False,
      import_stmt (ustr ''os'') None 3 True False, import_stmt (ustr ''os'') None 4 True False]
     \<lparr>names_from_star = 0, star_imports_removed = 0, removed_imports = 0\<rparr>
   = Inr ([import_stmt (ustr ''sys'') None 2 False False, import_stmt (ustr ''os'') None 3 True False],
          \<lparr>names_from_star = 0, star_imports_removed = 0, removed_imports = 2\<rparr>)"
  using dedupe_keeps_first_or_suppressed
    [of "[import_stmt (ustr ''os'') None 1 False False, import_stmt (ustr ''sys'') None 2 False False,
          import_stmt (ustr ''os'') None 3 True False, import_stmt (ustr ''os'') None 4 True False]"
        "\<lparr>names_from_star = 0, star_imports_removed = 0, removed_imports = 0\<rparr>"]
  by (simp add: import_stmt_def is_kept_def kept_for_def hash_key_of_def enumerate_eq_zip upt_rec)

section \<open>The remover keeps suppressed declarations\<close>

lemma prune_names_noqa [simp]: "noqa (prune_names rm n) = noqa n"
  by (simp add: prune_names_def split: node_kind.splits)

lemma prune_names_untouched:
  assumes "\<forall>k. (k, lineno n) \<notin> rm"
  shows "prune_names rm n = n"
  using assms by (simp add: prune_names_def split: node_kind.splits)

lemma filter_noqa_pruned:
  assumes "\<forall>n \<in> set xs. noqa n \<longrightarrow> (\<forall>k. (k, lineno n) \<notin> rm)"
  shows "filter noqa (filter (\<lambda>n. names n \<noteq> []) (map (prune_names rm) xs))
         = filter (\<lambda>n. noqa n \<and> names n \<noteq> []) xs"
  using assms
proof (induction xs)
  case Nil
  then show ?case by simp
next
  case (Cons n xs)
  show ?case
  proof (cases "noqa n")
    case True
    with Cons.prems have "prune_names rm n = n" by (intro prune_names_untouched) simp
    with True Cons show ?thesis by simp
  next
    case False
    with Cons show ?thesis by simp
  qed
qed

text \<open>
  Claim C7. Among the declarations that \<open>_remove_unused_names\<close> returns, those carrying
  the suppress-removal directive are exactly the flagged declarations of its input (all
  that bind a name), unchanged and in order, whatever warnings were collected: no
  warning on the line of a flagged declaration removes a binding. In particular
  \<open>import foo as bar  # noqa\<close> survives a warning for its line.
\<close>

theorem remover_keeps_suppressed:
  "filter noqa (fst (remove_unused_names imports warnings st))
   = filter (\<lambda>n. noqa n \<and> names n \<noteq> []) imports"
proof -
  let ?rm = "{(nm, l) \<in> warnings. l \<notin> lineno ` set (filter noqa imports)}"
  have "\<forall>n \<in> set imports. noqa n \<longrightarrow> (\<forall>k. (k, lineno n) \<notin> ?rm)" by auto
  from filter_noqa_pruned[OF this] show ?thesis
    by (simp add: remove_unused_names_def Let_def)
qed

theorem remover_keeps_suppressed_witness:
  "fst (remove_unused_names
     [import_stmt (ustr ''foo'') (Some (ustr ''bar'')) 1 True False, import_stmt (ustr ''os'') None 2 False False]
     {((ustr ''foo as bar''), 1), ((ustr ''foo''), 1), ((ustr ''os''), 2)} stats0)
   = [import_stmt (ustr ''foo'') (Some (ustr ''bar'')) 1 True False]"
  using remover_keeps_suppressed
    [of "[import_stmt (ustr ''foo'') (Some (ustr ''bar'')) 1 True False, import_stmt (ustr ''os'') None 2 False False]"
        "{((ustr ''foo as bar''), 1), ((ustr ''foo''), 1), ((ustr ''os''), 2)}" stats0]
  by (simp add: remove_unused_names_def prune_names_def import_stmt_def Let_def)

section \<open>Relative imports and the sentinel\<close>

text \<open>
  Claim C8 fails on the code for a leading module token that starts above \<open>chr(127)\<close>.
  The relative and the absolute from-import of the module named by the letter U+00E9 are
  both local under that prefix and share the leading token; the sentinel \<open>chr(127)\<close> put
  before the token of the relative one is smaller than U+00E9, so the relative import
  has the smaller sort key and is written first.
\<close>

theorem relative_sorts_before_non_ascii:
  "group_of (STDLIB accented_lib) [0xE9]
       (from_stmt 1 (Some [0xE9]) (ustr ''x'') None 2 False False) = Locals
   \<and> group_of (STDLIB accented_lib) [0xE9]
       (from_stmt 0 (Some [0xE9]) (ustr ''y'') None 1 False False) = Locals
   \<and> leading_token (from_stmt 1 (Some [0xE9]) (ustr ''x'') None 2 False False)
       = leading_token (from_stmt 0 (Some [0xE9]) (ustr ''y'') None 1 False False)
   \<and> node_sort_key (str_lower accented_lib)
         (from_stmt 1 (Some [0xE9]) (ustr ''x'') None 2 False False)
       < node_sort_key (str_lower accented_lib)
           (from_stmt 0 (Some [0xE9]) (ustr ''y'') None 1 False False)
   \<and> rewritten_text (rewrite_source accented_lib accented_example [0xE9] None False)
       = Inr [ustr ''from .'' @ [0xE9] @ ustr '' import x'',
              ustr ''from '' @ [0xE9] @ ustr '' import y'', ustr ''print(x, y)'']"
  by code_simp

section \<open>Lines outside the imports\<close>

text \<open>
  Claim C1, as amended. When the rewrite of a file succeeds, its output is the source with
  the lines of the computed gap set dropped, every other line with its trailing
  whitespace stripped (and otherwise unchanged, in the original order), and the import
  block inserted before the line of the first declaration. The gap set contains the line
  of every import declaration, and every line that is not in the gap set appears in the
  output with its trailing whitespace stripped. The whitespace stripped is that of
  \<open>str.rstrip()\<close>: every trailing code point for which \<open>str.isspace\<close> holds.
\<close>

theorem non_import_lines_kept_stripped:
  assumes "rewrite_source env src lm thr xp = Inr (out, st)"
  shows "\<exists>r blk.
     stages env src xp r
     \<and> lineno ` set (source_imports r) \<subseteq> gap_lines r
     \<and> out = frame src (gap_lines r) (start_line (source_imports r)) blk
     \<and> (\<forall>i. 1 \<le> i \<and> i \<le> length src \<and> i \<notin> gap_lines r \<longrightarrow> rstrip (src ! (i - 1)) \<in> set out)"
proof -
  from rewrite_source_run[OF assms] obtain r F S P N L where
    stg: "stages env src xp r"
    and w: "write_source src [F, S, P, L, N] (gap_lines r) (start_line (source_imports r)) = Inr out"
    by blast
  from stg have g: "get_import_discard_lines src (source_imports r) (source_code_lines r)
      = Inr (gap_lines r)"
    by (simp add: stages_def)
  from write_source_Inr_frame[OF w] obtain blk
    where out: "out = frame src (gap_lines r) (start_line (source_imports r)) blk" by blast
  have "\<forall>i. 1 \<le> i \<and> i \<le> length src \<and> i \<notin> gap_lines r \<longrightarrow> rstrip (src ! (i - 1)) \<in> set out"
    using in_set_kept_lines[of _ src "gap_lines r"]
      set_frame[of src "gap_lines r" "start_line (source_imports r)" blk] out
    by blast
  with stg import_lines_in_gap[OF g] out show ?thesis by blast
qed

theorem non_import_lines_kept_stripped_witness:
  "rewritten_text (rewrite_source trailing_example_lib trailing_example [] None False)
   = Inr (map ustr [''import os'', [], ''from . import x  # noqa nosort'', ''print(os, x)''])"
proof -
  have e: "rewritten_text (rewrite_source trailing_example_lib trailing_example [] None False)
     = Inr (map ustr [''import os'', [], ''from . import x  # noqa nosort'', ''print(os, x)''])"
    by code_simp
  then obtain st where r: "rewrite_source trailing_example_lib trailing_example [] None False
     = Inr (map ustr [''import os'', [], ''from . import x  # noqa nosort'', ''print(os, x)''],
            st)"
    by (auto simp: rewritten_text_def split: sum.splits)
  from non_import_lines_kept_stripped[OF r] e show ?thesis by simp
qed

text \<open>
  The claim as stated fails: the file whose only line is \<open>x = 1\<close> followed by two
  spaces has no import, and the run prints the line without the two spaces.
\<close>

theorem trailing_whitespace_not_preserved:
  "snd (main trailing_space_lib (plain_options [ustr ''f.py''])
          [ustr ''f.py'' \<mapsto> ustr ''x = 1  '' @ [0x0A]])
   = ([Status (ustr ''f.py'') False, Stdout (ustr ''x = 1'' @ [0x0A])], None)"
  by code_simp

section \<open>The order of the groups\<close>

text \<open>
  Claim C4, as amended. When the rewrite of a file succeeds (and iterating over a set
  yields each of its members once), the output is the source without the lines of the gap
  set, with the import block inserted before the line of the first declaration read from
  the source. The block consists of the non-empty groups, separated by one blank line, in
  the order future, standard library, third party, local, and then the declarations
  flagged suppress-sort. Each of the first four groups holds the surviving declarations of
  its class, sorted by their keys; the flagged declarations come last in the block, in
  the relative order in which they survive (not at their original position among the
  imports).
\<close>

theorem import_groups_written_in_order:
  assumes "rewrite_source env src lm thr xp = Inr (out, st)"
    and "\<forall>members. mset (set_iteration env members) = mset members"
  shows "\<exists>r F S P L N.
     stages env src xp r
     \<and> mset F = mset (filter (\<lambda>d. group_of (STDLIB env) lm d = Future) (survivors thr r))
     \<and> mset S = mset (filter (\<lambda>d. group_of (STDLIB env) lm d = Stdlib) (survivors thr r))
     \<and> mset P = mset (filter (\<lambda>d. group_of (STDLIB env) lm d = Package) (survivors thr r))
     \<and> mset L = mset (filter (\<lambda>d. group_of (STDLIB env) lm d = Locals) (survivors thr r))
     \<and> N = filter (\<lambda>d. group_of (STDLIB env) lm d = Nosort) (survivors thr r)
     \<and> sorted (map (node_sort_key (str_lower env)) F)
     \<and> sorted (map (node_sort_key (str_lower env)) S)
     \<and> sorted (map (node_sort_key (str_lower env)) P)
     \<and> sorted (map (node_sort_key (str_lower env)) L)
     \<and> out = frame src (gap_lines r) (start_line (source_imports r))
               (join_blocks (map (map import_text) (filter (\<lambda>g. g \<noteq> []) [F, S, P, L, N])))
     \<and> (source_imports r \<noteq> [] \<and> 1 \<le> start_line (source_imports r) \<longrightarrow>
          out = kept_lines (take (start_line (source_imports r) - 1) (enumerate 1 src))
                  (gap_lines r)
                @ join_blocks (map (map import_text) (filter (\<lambda>g. g \<noteq> []) [F, S, P, L, N]))
                @ kept_lines (drop (start_line (source_imports r) - 1) (enumerate 1 src))
                    (gap_lines r))"
proof -
  from rewrite_source_output[OF assms(1)] obtain r F S P N L where
    stg: "stages env src xp r"
    and gr: "get_import_groups env (survivors thr r) lm = Inr (F, S, P, N, L)"
    and out: "out = frame src (gap_lines r) (start_line (source_imports r))
               (join_blocks (map (map import_text) (filter (\<lambda>g. g \<noteq> []) [F, S, P, L, N])))"
    by blast
  note f = get_import_groups_filter[OF gr]
  have ms: "mset (sorted_group env members) = mset members" for members
    using assms(2) by (intro sorted_group_mset) simp
  have mF: "mset F = mset (filter (\<lambda>d. group_of (STDLIB env) lm d = Future) (survivors thr r))"
    and mS: "mset S = mset (filter (\<lambda>d. group_of (STDLIB env) lm d = Stdlib) (survivors thr r))"
    and mP: "mset P = mset (filter (\<lambda>d. group_of (STDLIB env) lm d = Package) (survivors thr r))"
    and mL: "mset L = mset (filter (\<lambda>d. group_of (STDLIB env) lm d = Locals) (survivors thr r))"
    and N: "N = filter (\<lambda>d. group_of (STDLIB env) lm d = Nosort) (survivors thr r)"
    using f ms by simp_all
  have sF: "sorted (map (node_sort_key (str_lower env)) F)"
    and sS: "sorted (map (node_sort_key (str_lower env)) S)"
    and sP: "sorted (map (node_sort_key (str_lower env)) P)"
    and sL: "sorted (map (node_sort_key (str_lower env)) L)"
    using f sorted_group_sorted by simp_all
  have inside: "out = kept_lines (take (start_line (source_imports r) - 1) (enumerate 1 src))
                  (gap_lines r)
                @ join_blocks (map (map import_text) (filter (\<lambda>g. g \<noteq> []) [F, S, P, L, N]))
                @ kept_lines (drop (start_line (source_imports r) - 1) (enumerate 1 src))
                    (gap_lines r)"
    if ne: "source_imports r \<noteq> []" and ge: "1 \<le> start_line (source_imports r)"
  proof -
    from stg have p: "parse_toplevel_imports env src False
        = Inr (source_imports r, None, source_code_lines r)"
      by (simp add: stages_def)
    from ne obtain n ns where n: "source_imports r = n # ns" by (cases "source_imports r") auto
    with parse_linenos_in_text[OF p] have "start_line (source_imports r) \<le> length src"
      by (simp add: start_line_def)
    with ge out show ?thesis by (simp add: frame_def)
  qed
  from stg mF mS mP mL N sF sS sP sL out inside show ?thesis by blast
qed

theorem import_groups_written_in_order_witness:
  "rewritten_text (rewrite_source grouped_example_lib grouped_example [] None False)
   = Inr (map ustr
       [''from __future__ import print_function'', [], ''import os'', [], ''import requests'',
        [], ''from . import y'', [], ''from . import x  # noqa nosort'',
        ''print(os, x, y, requests)''])"
proof -
  have e: "rewritten_text (rewrite_source grouped_example_lib grouped_example [] None False)
     = Inr (map ustr
       [''from __future__ import print_function'', [], ''import os'', [], ''import requests'',
        [], ''from . import y'', [], ''from . import x  # noqa nosort'',
        ''print(os, x, y, requests)''])"
    by code_simp
  then obtain st where r: "rewrite_source grouped_example_lib grouped_example [] None False
     = Inr (map ustr
       [''from __future__ import print_function'', [], ''import os'', [], ''import requests'',
        [], ''from . import y'', [], ''from . import x  # noqa nosort'',
        ''print(os, x, y, requests)''], st)"
    by (auto simp: rewritten_text_def split: sum.splits)
  have it: "\<forall>members. mset (set_iteration grouped_example_lib members) = mset members"
    by (simp add: grouped_example_lib_def table_lib_def)
  from import_groups_written_in_order[OF r it] e show ?thesis by simp
qed

text \<open>
  The claim as stated fails: a flagged declaration on the first line of the imports is
  written after the sorted \<open>import os\<close> that followed it.
\<close>

theorem unsorted_import_moves_last:
  "rewritten_text (rewrite_source unsorted_first_lib unsorted_first_example [] None False)
   = Inr (map ustr [''import os'', [], ''from . import x  # noqa nosort'', ''print(os, x)''])"
  by code_simp

section \<open>The drilling loop terminates\<close>

lemma drill_pass_lines:
  "drill_pass ws (src, wset, seen, has) = Inr (src', wset', seen', has') \<Longrightarrow>
     reports_lines ws \<Longrightarrow>
     length src' = length src \<and> seen \<subseteq> seen' \<and> seen' \<subseteq> seen \<union> {1..length src}
     \<and> (has' \<longrightarrow> has \<or> seen \<noteq> seen')"
proof (induction ws arbitrary: src wset seen has)
  case Nil
  then show ?case by simp
next
  case (Cons w ws)
  from Cons.prems(2) have rest: "reports_lines ws" by (simp add: reports_lines_def)
  show ?case
  proof (cases "\<not> is_unused_import w \<or> msg_lineno w \<in> seen")
    case True
    with Cons.prems have "drill_pass ws (src, wset, seen, has) = Inr (src', wset', seen', has')"
      by auto
    from Cons.IH[OF this rest] show ?thesis .
  next
    case False
    then obtain line where line: "line_at src (msg_lineno w) = Some line"
      using Cons.prems by (auto split: option.splits)
    from False Cons.prems(2) have pos: "1 \<le> msg_lineno w" by (simp add: reports_lines_def)
    show ?thesis
    proof (cases "takeWhile is_space line \<noteq> []")
      case True
      with False line Cons.prems
      have "drill_pass ws (src, wset, seen, has) = Inr (src', wset', seen', has')"
        by auto
      from Cons.IH[OF this rest] show ?thesis .
    next
      case noind: False
      with False line Cons.prems
      have "drill_pass ws (set_line src (msg_lineno w) [],
               insert (message_arg0 w, msg_lineno w) wset, insert (msg_lineno w) seen, True)
            = Inr (src', wset', seen', has')"
        by auto
      from Cons.IH[OF this rest] line_at_Some_le[OF line] False pos show ?thesis
        by auto
    qed
  qed
qed

lemma drill_fuel_enough:
  assumes "reports_lines messages"
    and "\<forall>text tree. ast_parse env text = Some tree \<longrightarrow> reports_lines (checker_messages env tree)"
    and "card ({1..length source_lines} - seen_lineno) < k"
  shows "drill_fuel k env messages source_lines warnings_set seen_lineno
         = Some (drill_loop env messages source_lines warnings_set seen_lineno)"
  using assms
proof (induction k arbitrary: messages source_lines warnings_set seen_lineno)
  case 0
  then show ?case by simp
next
  case (Suc k)
  show ?case
  proof (cases "drill_pass messages (source_lines, warnings_set, seen_lineno, False)")
    case (Inl e)
    then show ?thesis by (simp add: drill_loop.simps[of env messages])
  next
    case (Inr s)
    obtain src' ws' seen' has where s: "s = (src', ws', seen', has)" by (cases s)
    show ?thesis
    proof (cases has)
      case False
      with Inr s show ?thesis by (simp add: drill_loop.simps[of env messages])
    next
      case True
      show ?thesis
      proof (cases "ast_parse env (join [0x0A] src')")
        case None
        with Inr s True show ?thesis by (simp add: drill_loop.simps[of env messages])
      next
        case (Some tree)
        from drill_pass_lines[OF Inr[unfolded s] Suc.prems(1)] True
        have len: "length src' = length source_lines" and sub: "seen_lineno \<subseteq> seen'"
          and bnd: "seen' \<subseteq> seen_lineno \<union> {1..length source_lines}"
          and ne: "seen_lineno \<noteq> seen'"
          by auto
        have "{1..length source_lines} - seen' \<subset> {1..length source_lines} - seen_lineno"
          using sub bnd ne by auto
        then have "card ({1..length source_lines} - seen')
            < card ({1..length source_lines} - seen_lineno)"
          by (intro psubset_card_mono) auto
        with Suc.prems(3) have "card ({1..length src'} - seen') < k" by (simp add: len)
        from Some Suc.prems(2) have "reports_lines (checker_messages env tree)" by blast
        from Suc.IH[OF this Suc.prems(2) \<open>card ({1..length src'} - seen') < k\<close>, of ws']
        have "drill_fuel k env (checker_messages env tree) src' ws' seen'
            = Some (drill_loop env (checker_messages env tree) src' ws' seen')"
          by simp
        with Inr s True Some show ?thesis by (simp add: drill_loop.simps[of env messages])
      qed
    qed
  qed
qed

text \<open>
  Claim C10. \<open>drill_loop\<close> is a total function: its termination proof is the measure of
  the claim, the number of line numbers of the working text not yet in \<open>seen_lineno\<close>,
  which every continuing iteration decreases (an iteration either raises, finds nothing
  new and stops, or adds a new line number of the text). When the checker reports unused
  imports on lines of the text (line numbers from 1), the loop is over after at most as
  many iterations as the text has lines, plus one: run with that many iterations
  allowed, it returns what \<open>_drill_for_warnings\<close> returns.
\<close>

theorem drill_terminates_within_lines:
  assumes "reports_lines messages"
    and "\<forall>text tree. ast_parse env text = Some tree \<longrightarrow> reports_lines (checker_messages env tree)"
  shows "drill_fuel (length source_lines + 1) env messages source_lines {} {}
         = Some (drill_for_warnings env source_lines messages)"
proof -
  have "card ({1..length source_lines} - {}) < length source_lines + 1" by simp
  from drill_fuel_enough[OF assms this] show ?thesis by (simp add: drill_for_warnings_def)
qed

theorem drill_terminates_within_lines_witness:
  "drill_fuel 3 duplicate_lib [redefined_while_unused (ustr ''a'') 2, unused_import (ustr ''y.a'') 2] duplicate_example {} {}
   = Some (Inr {((ustr ''x.a''), 1), ((ustr ''y.a''), 2)})"
proof -
  have h1: "reports_lines [redefined_while_unused (ustr ''a'') 2, unused_import (ustr ''y.a'') 2]"
    by (simp add: reports_lines_def unused_import_def redefined_while_unused_def)
  have h2: "\<forall>text tree. ast_parse duplicate_lib text = Some tree
              \<longrightarrow> reports_lines (checker_messages duplicate_lib tree)"
    by (auto simp: duplicate_lib_def table_lib_def reports_lines_def unused_import_def
        redefined_while_unused_def
        split: if_splits)
  have e: "drill_for_warnings duplicate_lib duplicate_example [redefined_while_unused (ustr ''a'') 2, unused_import (ustr ''y.a'') 2]
      = Inr {((ustr ''x.a''), 1), ((ustr ''y.a''), 2)}"
    by code_simp
  have l: "length duplicate_example + 1 = 3" by (simp add: duplicate_example_def)
  from drill_terminates_within_lines[OF h1 h2, of duplicate_example] show ?thesis
    unfolding l e .
qed

section \<open>Duplicate unused bindings\<close>










section \<open>The density threshold\<close>

lemma round_half_even_int [simp]: "round_half_even (of_int k) = k"
  by (simp add: round_half_even_def)

lemma pow2_pos [simp]: "0 < pow2 e"
  by (simp add: pow2_def)

lemma bitlen_one: "bitlen 1 = 1"
  by (simp add: bitlen_def floorlog_def)

lemma exponent_of_int:
  assumes "n \<noteq> 0"
  shows "exponent (of_int n) = bitlen \<bar>n\<bar> - 1"
proof -
  have "\<bar>rat_of_int n\<bar> = rat_of_int \<bar>n\<bar>" by simp
  then have q: "quotient_of \<bar>rat_of_int n\<bar> = (\<bar>n\<bar>, 1)"
    by (simp only: quotient_of_rat_of_int)
  have pos: "0 < \<bar>n\<bar>" using assms by simp
  from bitlen_bounds[OF pos] have lo: "2 ^ nat (bitlen \<bar>n\<bar> - 1) \<le> \<bar>n\<bar>" by simp
  have b1: "1 \<le> bitlen \<bar>n\<bar>" using pos bitlen_le_iff_power[of "\<bar>n\<bar>" 0] by simp
  then have "pow2 (bitlen \<bar>n\<bar> - 1) = rat_of_int (2 ^ nat (bitlen \<bar>n\<bar> - 1))"
    by (simp add: pow2_def)
  also have "\<dots> \<le> rat_of_int \<bar>n\<bar>" using lo by (simp only: of_int_le_iff)
  finally have "pow2 (bitlen \<bar>n\<bar> - 1) \<le> \<bar>rat_of_int n\<bar>" by simp
  then show ?thesis unfolding exponent_def q by (simp add: Let_def bitlen_one)
qed

lemma pow2_nonpos: "e \<le> 0 \<Longrightarrow> pow2 e = 1 / 2 ^ nat (- e)"
  by (cases "e = 0") (simp_all add: pow2_def)

lemma round_double_of_int:
  assumes "\<bar>n\<bar> < 2 ^ 53"
  shows "round_double (of_int n) = of_int n"
proof (cases "n = 0")
  case True
  then show ?thesis by (simp add: round_double_def)
next
  case False
  let ?e = "bitlen \<bar>n\<bar> - 1"
  have e: "exponent (of_int n) = ?e" by (rule exponent_of_int[OF False])
  have pos: "0 < \<bar>n\<bar>" using False by simp
  have b1: "1 \<le> bitlen \<bar>n\<bar>" using pos bitlen_le_iff_power[of "\<bar>n\<bar>" 0] by simp
  have b53: "bitlen \<bar>n\<bar> \<le> 53" using assms bitlen_le_iff_power[of "\<bar>n\<bar>" 53] by simp
  define k where "k = nat (52 - ?e)"
  have ulp: "pow2 (max ?e (- 1022) - 52) = 1 / 2 ^ k"
    using b1 b53 by (simp add: pow2_nonpos k_def max_def)
  have "rat_of_int n * 2 ^ k = rat_of_int (n * 2 ^ k)" by simp
  then have r: "round_half_even (rat_of_int n * 2 ^ k) = n * 2 ^ k"
    by (simp only: round_half_even_int)
  show ?thesis
    using False by (simp add: round_double_def e ulp r Let_def)
qed

lemma float_of_int_exact:
  assumes "\<bar>n\<bar> < 2 ^ 53"
  shows "float_of_int n = Inr (of_int n)"
proof (cases "n = 0")
  case True
  then show ?thesis by (simp add: float_of_int_def round_double_def overflows_def)
next
  case False
  have pos: "0 < \<bar>n\<bar>" using False by simp
  have b53: "bitlen \<bar>n\<bar> \<le> 53" using assms bitlen_le_iff_power[of "\<bar>n\<bar>" 53] by simp
  have "\<not> overflows (of_int n)"
    using b53 by (simp add: overflows_def exponent_of_int[OF False])
  then show ?thesis by (simp add: float_of_int_def round_double_of_int[OF assms] Let_def)
qed

text \<open>The density spelled out, for counts below \<open>2^53\<close>.\<close>

lemma density_value:
  assumes "lwc \<noteq> {}" "int (card lwc) < 2 ^ 53"
    and "\<bar>int (length imps) + star_imports_removed st - names_from_star st\<bar> < 2 ^ 53"
  shows "density imps st lwc =
     Inr (case float_result
                 (of_int (int (length imps) + star_imports_removed st - names_from_star st)
                  / of_int (int (card lwc))) of
            FloatNum ratio \<Rightarrow> float_result (ratio * 100)
          | other \<Rightarrow> other)"
proof -
  have c: "float_of_int (int (card lwc)) = Inr (of_int (int (card lwc)))"
    using assms(2) by (intro float_of_int_exact) simp
  have n: "float_of_int (int (length imps) + star_imports_removed st - names_from_star st)
      = Inr (of_int (int (length imps) + star_imports_removed st - names_from_star st))"
    by (rule float_of_int_exact[OF assms(3)])
  show ?thesis using assms(1) unfolding density_def c n by simp
qed

text \<open>
  Claim C6, as amended. When the rewrite of a file succeeds, the reported density is the
  density of the flattened text as the program computes it in double-precision floating
  point: 0 when the flattened text has no line of code, and otherwise (for counts below
  \<open>2^53\<close>) the number of its declarations plus the star imports removed minus the names
  expanded from stars, divided by the number of its code lines and rounded to a double,
  times 100 and rounded again. The remover has run (the declarations that are grouped and
  written and the counters are its results) if and only if the threshold is null or this
  computed density is strictly less than the threshold, compared exactly. Because of the
  two roundings the computed density can be strictly below a threshold that the exact
  quotient equals.
\<close>

theorem remover_runs_iff_below_threshold:
  assumes "rewrite_source env src lm thr xp = Inr (out, st)"
  shows "\<exists>r F S P N L.
     stages env src xp r
     \<and> density (flat_imports r) (flat_counters r) (flat_code_lines r)
         = Inr (import_proportion st)
     \<and> (int (card (flat_code_lines r)) < 2 ^ 53
        \<and> \<bar>int (length (flat_imports r)) + star_imports_removed (flat_counters r)
            - names_from_star (flat_counters r)\<bar> < 2 ^ 53
        \<longrightarrow> import_proportion st =
             spec_density
               (int (length (flat_imports r)) + star_imports_removed (flat_counters r)
                - names_from_star (flat_counters r))
               (card (flat_code_lines r)))
     \<and> get_import_groups env
         (if thr = None \<or> (\<exists>t. thr = Some t \<and> number_less (import_proportion st) t)
          then fst (remove_unused_names (flat_imports r) (flat_warnings r) (flat_counters r))
          else flat_imports r) lm
         = Inr (F, S, P, N, L)
     \<and> write_source src [F, S, P, L, N] (gap_lines r) (start_line (source_imports r)) = Inr out
     \<and> counters st =
         (if thr = None \<or> (\<exists>t. thr = Some t \<and> number_less (import_proportion st) t)
          then snd (remove_unused_names (flat_imports r) (flat_warnings r) (flat_counters r))
          else flat_counters r)"
proof -
  from rewrite_source_run[OF assms] obtain r F S P N L where
    stg: "stages env src xp r"
    and dn: "density (flat_imports r) (flat_counters r) (flat_code_lines r)
        = Inr (import_proportion st)"
    and cnt: "counters st =
         (if runs_remover thr (import_proportion st)
          then snd (remove_unused_names (flat_imports r) (flat_warnings r) (flat_counters r))
          else flat_counters r)"
    and gr: "get_import_groups env (survivors thr r) lm = Inr (F, S, P, N, L)"
    and w: "write_source src [F, S, P, L, N] (gap_lines r) (start_line (source_imports r))
        = Inr out"
    by blast
  have run: "runs_remover thr (import_proportion st)
      = (thr = None \<or> (\<exists>t. thr = Some t \<and> number_less (import_proportion st) t))"
    by (cases thr) (simp_all add: runs_remover_def)
  have sv: "survivors thr r =
      (if thr = None \<or> (\<exists>t. thr = Some t \<and> number_less (import_proportion st) t)
       then fst (remove_unused_names (flat_imports r) (flat_warnings r) (flat_counters r))
       else flat_imports r)"
    using dn run by (simp add: survivors_def)
  let ?n = "int (length (flat_imports r)) + star_imports_removed (flat_counters r)
      - names_from_star (flat_counters r)"
  have val: "import_proportion st = spec_density ?n (card (flat_code_lines r))"
    if c: "int (card (flat_code_lines r)) < 2 ^ 53" and n: "\<bar>?n\<bar> < 2 ^ 53"
  proof (cases "flat_code_lines r = {}")
    case True
    with dn show ?thesis by (simp add: density_def spec_density_def)
  next
    case False
    from stg have "finite (flat_code_lines r)"
      unfolding stages_def using parse_code_lines_finite by blast
    with False have "card (flat_code_lines r) \<noteq> 0" by simp
    with density_value[OF False c n] dn show ?thesis by (simp add: spec_density_def)
  qed
  from stg dn val gr w cnt show ?thesis unfolding sv run by blast
qed

theorem remover_runs_iff_below_threshold_witness:
  "rewritten_text (rewrite_source threshold_lib threshold_example [] (Some 50) False)
     = Inr (map ustr [''import os'', ''import sys'', ''x = 1'', ''y = 2''])
   \<and> rewritten_text (rewrite_source threshold_lib threshold_example [] (Some 51) False)
     = Inr (map ustr [''x = 1'', ''y = 2''])"
proof -
  have e: "rewritten_text (rewrite_source threshold_lib threshold_example [] (Some 50) False)
      = Inr (map ustr [''import os'', ''import sys'', ''x = 1'', ''y = 2''])
    \<and> rewritten_text (rewrite_source threshold_lib threshold_example [] (Some 51) False)
      = Inr (map ustr [''x = 1'', ''y = 2''])"
    by code_simp
  then obtain st where r: "rewrite_source threshold_lib threshold_example [] (Some 50) False
      = Inr (map ustr [''import os'', ''import sys'', ''x = 1'', ''y = 2''], st)"
    by (auto simp: rewritten_text_def split: sum.splits)
  from remover_runs_iff_below_threshold[OF r] e show ?thesis by simp
qed

text \<open>
  The claim as stated, with the density as the exact quotient, fails: with 29 declarations
  on 50 lines of code the quotient times 100 is 58, which is not less than the threshold
  58, but the program computes \<open>58 - 2^-47\<close> (it prints 57.99999999999999), runs the
  remover and drops the unused \<open>import a\<close>.
\<close>

theorem rounded_density_below_threshold:
  "length rounding_nodes = 29 \<and> length rounding_example = 50
   \<and> (29 / 50 * 100 :: rat) = 58
   \<and> reported_density (rewrite_source rounding_lib rounding_example [] (Some 58) False)
       = Inr (FloatNum (58 - 1 / 2 ^ 47))
   \<and> rewritten_text (rewrite_source rounding_lib rounding_example [] (Some 58) False)
       = Inr (tl rounding_example)"
  by code_simp

section \<open>The conflict of the two flags\<close>

text \<open>
  With \<open>-k\<close> and a threshold other than 0, the run ends with the conflict error once the
  first file has been read, and nothing is written.
\<close>

lemma conflict_detected:
  assumes "keep_unused opts" "heuristic_unused opts = Some t" "t \<noteq> 0"
    "filename opts = f # files" "fs f = Some text"
  shows "main env opts fs = (fs, [], Some ConfigConflict)"
  using assms by (simp add: main_def)

text \<open>
  Claim C9 fails on the code for the threshold 0: \<open>if options.heuristic_unused\<close> reads 0
  as false, so \<open>-k --heuristic-unused 0\<close> raises nothing and the file is processed.
\<close>

theorem keep_unused_with_zero_threshold_runs:
  "snd (main trailing_space_lib
          ((plain_options (map ustr [''f.py''])) \<lparr>keep_unused := True, heuristic_unused := Some 0\<rparr>)
          [(ustr ''f.py'') \<mapsto> (ustr ''x = 1'') @ [0x0A]])
   = ([Status (ustr ''f.py'') False, Stdout ((ustr ''x = 1'') @ [0x0A])], None)"
  by code_simp

end
